theory Spec2Isabelle
  imports Complex_Main "HOL-Library.AList" "HOL-Library.Sublist" "HOL-Library.Log_Nat"
begin

section \<open>JSON values and JavaScript objects\<close>

text \<open>
  The library (\<^verbatim>\<open>lib/setup.js\<close>) reads two JSON files, edits the parsed values as
  JavaScript objects and writes them back with \<^verbatim>\<open>JSON.stringify\<close>. A JSON value is one
  of six shapes. An object is kept as its list of own properties in insertion order (the
  order JavaScript keeps for keys that are not array indices); a number is the rational
  that its numeral denotes; a string is a list of characters. A file is modelled by the
  value its text denotes, not by the text.
\<close>

datatype json =
    JNull
  | JBool bool
  | JNum rat
  | JStr string
  | JArr "json list"
  | JObj "(string \<times> json) list"

type_synonym obj = "(string \<times> json) list"

subsection \<open>Numbers\<close>

text \<open>
  \<^verbatim>\<open>JSON.parse\<close> turns a numeral into a double: the binary64 value nearest to it, ties to
  the even significand, and an infinity when that value would be \<open>2 ^ 1024\<close> or more in
  magnitude. \<open>floorLog2 a\<close> is the exponent \<open>e\<close> with \<open>2 ^ e \<le> a < 2 ^ (e + 1)\<close>, for
  \<open>a > 0\<close> (\<open>bitlen\<close> is the number of binary digits of an integer). The doubles around
  \<open>a\<close> are the multiples of \<open>2 ^ ulpExponent a\<close>: 53 significant bits, and no exponent
  below that of the subnormal numbers. \<open>toDouble\<close> gives the double, or \<open>None\<close> for an
  infinity.
\<close>

definition pow2 :: "int \<Rightarrow> rat" where
  "pow2 p = (if 0 \<le> p then 2 ^ nat p else 1 / 2 ^ nat (- p))"

definition floorLog2 :: "rat \<Rightarrow> int" where
  "floorLog2 a =
     (case quotient_of a of
        (n, d) \<Rightarrow> (let k = bitlen n - bitlen d in if pow2 k \<le> a then k else k - 1))"

definition ulpExponent :: "rat \<Rightarrow> int" where
  "ulpExponent a = max (floorLog2 a - 52) (- 1074)"

definition isDouble :: "rat \<Rightarrow> bool" where
  "isDouble q =
     (q = 0 \<or>
      (floorLog2 \<bar>q\<bar> \<le> 1023
       \<and> of_int \<lfloor>\<bar>q\<bar> / pow2 (ulpExponent \<bar>q\<bar>)\<rfloor> = \<bar>q\<bar> / pow2 (ulpExponent \<bar>q\<bar>)))"

definition roundHalfEven :: "rat \<Rightarrow> int" where
  "roundHalfEven x =
     (let f = \<lfloor>x\<rfloor>; r = x - of_int f
      in if r < 1 / 2 then f
         else if 1 / 2 < r then f + 1
         else if even f then f else f + 1)"

definition nearest :: "rat \<Rightarrow> rat" where
  "nearest q =
     sgn q * of_int (roundHalfEven (\<bar>q\<bar> / pow2 (ulpExponent \<bar>q\<bar>))) * pow2 (ulpExponent \<bar>q\<bar>)"

definition toDouble :: "rat \<Rightarrow> rat option" where
  "toDouble q =
     (if isDouble q then Some q
      else if isDouble (nearest q) then Some (nearest q)
      else None)"

text \<open>
  \<^verbatim>\<open>JSON.stringify(JSON.parse(t))\<close> on values: what a value read from a file is when it
  is written back. A numeral becomes its double, and \<^verbatim>\<open>null\<close> when the double is an
  infinity; everything else is kept.
\<close>

fun reserialise :: "json \<Rightarrow> json" where
  "reserialise (JNum q) = (case toDouble q of Some r \<Rightarrow> JNum r | None \<Rightarrow> JNull)"
| "reserialise (JArr xs) = JArr (map reserialise xs)"
| "reserialise (JObj kvs) = JObj (map (\<lambda>(k, v). (k, reserialise v)) kvs)"
| "reserialise JNull = JNull"
| "reserialise (JBool b) = JBool b"
| "reserialise (JStr s) = JStr s"

definition reserialiseObj :: "obj \<Rightarrow> obj" where
  "reserialiseObj ob = map (\<lambda>(k, v). (k, reserialise v)) ob"

text \<open>The values that hold no numeral other than doubles.\<close>

fun doubleNumbers :: "json \<Rightarrow> bool" where
  "doubleNumbers (JNum q) = isDouble q"
| "doubleNumbers (JArr xs) = list_all doubleNumbers xs"
| "doubleNumbers (JObj kvs) = list_all (\<lambda>(k, v). doubleNumbers v) kvs"
| "doubleNumbers JNull = True"
| "doubleNumbers (JBool b) = True"
| "doubleNumbers (JStr s) = True"

subsection \<open>Objects\<close>

text \<open>
  JavaScript truthiness of a parsed value, as used by every \<^verbatim>\<open>if (x)\<close> of the source. The
  library looks at a number in no other way (and writes it back, see \<open>reserialise\<close>), so
  the values in memory keep the numeral that was read and the rounding of \<^verbatim>\<open>JSON.parse\<close>
  is applied at these two places: a numeral is falsy when its double is zero.
\<close>

fun truthy :: "json \<Rightarrow> bool" where
  "truthy JNull = False"
| "truthy (JBool b) = b"
| "truthy (JNum n) = (toDouble n \<noteq> Some 0)"
| "truthy (JStr s) = (s \<noteq> [])"
| "truthy (JArr xs) = True"
| "truthy (JObj kvs) = True"

text \<open>
  Objects made by \<^verbatim>\<open>JSON.parse\<close> or by a literal \<^verbatim>\<open>{}\<close> have
  \<^verbatim>\<open>Object.prototype\<close> as prototype. Reading \<^verbatim>\<open>o[k]\<close> gives the own property, or a
  member of the prototype (a function, or for \<^verbatim>\<open>__proto__\<close> the prototype object itself:
  truthy, and not a JSON value), or \<^verbatim>\<open>undefined\<close>.
\<close>

definition objectPrototypeNames :: "string list" where
  "objectPrototypeNames =
     [''constructor'', ''__defineGetter__'', ''__defineSetter__'', ''hasOwnProperty'',
      ''__lookupGetter__'', ''__lookupSetter__'', ''isPrototypeOf'',
      ''propertyIsEnumerable'', ''toString'', ''valueOf'', ''__proto__'',
      ''toLocaleString'']"

datatype jsval = Undefined | Own json | Inherited

definition getProp :: "obj \<Rightarrow> string \<Rightarrow> jsval" where
  "getProp ob k =
     (case map_of ob k of
        Some v \<Rightarrow> Own v
      | None \<Rightarrow> if k \<in> set objectPrototypeNames then Inherited else Undefined)"

fun truthyVal :: "jsval \<Rightarrow> bool" where
  "truthyVal Undefined = False"
| "truthyVal (Own v) = truthy v"
| "truthyVal Inherited = True"

text \<open>
  The assignment \<^verbatim>\<open>o[k] = v\<close> creates or updates the own property \<^verbatim>\<open>k\<close>, with one
  exception of the language: \<^verbatim>\<open>__proto__\<close> is an accessor of \<^verbatim>\<open>Object.prototype\<close>, so
  on an object with no own property of that name the assignment calls the setter, which
  changes the prototype and creates no own property (nothing that \<^verbatim>\<open>JSON.stringify\<close>
  would write). \<^verbatim>\<open>JSON.parse\<close> does create an own property \<^verbatim>\<open>__proto__\<close> when the text
  has that key, and then the assignment updates it like any other.
\<close>

definition setProp :: "obj \<Rightarrow> string \<Rightarrow> json \<Rightarrow> obj" where
  "setProp ob k v =
     (if k = ''__proto__'' \<and> map_of ob k = None then ob else AList.update k v ob)"

text \<open>
  Assigning an inherited member (\<^verbatim>\<open>o[k] = b[k]\<close> where \<^verbatim>\<open>b[k]\<close> came from the prototype):
  a function stored under \<^verbatim>\<open>k\<close> is skipped by \<^verbatim>\<open>JSON.stringify\<close>, so the written object
  has no key \<^verbatim>\<open>k\<close>; for \<^verbatim>\<open>__proto__\<close> the value is \<^verbatim>\<open>Object.prototype\<close>, written as
  \<^verbatim>\<open>{}\<close> over an own property and changing nothing otherwise.
\<close>

definition setInherited :: "obj \<Rightarrow> string \<Rightarrow> obj" where
  "setInherited ob k =
     (if k = ''__proto__''
      then (if map_of ob k = None then ob else AList.update k (JObj []) ob)
      else AList.delete k ob)"

text \<open>\<^verbatim>\<open>delete o[k]\<close> removes the own property, if any.\<close>

definition deleteProp :: "obj \<Rightarrow> string \<Rightarrow> obj" where
  "deleteProp ob k = AList.delete k ob"

text \<open>\<^verbatim>\<open>Object.assign(target, source)\<close>: one assignment per own property of the source, in order.\<close>

fun objectAssign :: "obj \<Rightarrow> obj \<Rightarrow> obj" where
  "objectAssign target [] = target"
| "objectAssign target ((k, v) # src) = objectAssign (setProp target k v) src"

text \<open>\<^verbatim>\<open>s.includes(m)\<close> on strings.\<close>

fun includesStr :: "string \<Rightarrow> string \<Rightarrow> bool" where
  "includesStr [] m = (m = [])"
| "includesStr (c # cs) m = (prefix m (c # cs) \<or> includesStr cs m)"

section \<open>Constants of the library\<close>

definition AVAILABLE_EVENTS :: "(string \<times> string) list" where
  "AVAILABLE_EVENTS =
     [(''Stop - When Claude finishes responding'', ''Stop''),
      (''SubagentStop - When subagent tasks complete'', ''SubagentStop''),
      (''PostToolUse - After tool calls complete'', ''PostToolUse''),
      (''PreToolUse - Before tool calls (advanced)'', ''PreToolUse''),
      (''UserPromptSubmit - When user submits a prompt'', ''UserPromptSubmit''),
      (''Notification - When Claude sends notifications'', ''Notification''),
      (''SessionStart - When session starts/resumes'', ''SessionStart''),
      (''SessionEnd - When session ends'', ''SessionEnd''),
      (''PreCompact - Before compact operations'', ''PreCompact'')]"

text \<open>\<^verbatim>\<open>AVAILABLE_EVENTS.map(e => e.value)\<close>\<close>

definition eventNames :: "string list" where
  "eventNames = map snd AVAILABLE_EVENTS"

record platformConfig =
  command :: string
  defaultSound :: string
  soundsPath :: string
  extension :: string
  commandSuffix :: "string option"

definition backslash :: string where
  "backslash = [CHR 0x5C]"

definition PLATFORM_darwin :: platformConfig where
  "PLATFORM_darwin =
     \<lparr>command = ''afplay'',
      defaultSound = ''/System/Library/Sounds/Glass.aiff'',
      soundsPath = ''/System/Library/Sounds'',
      extension = ''.aiff'',
      commandSuffix = None\<rparr>"

definition PLATFORM_linux :: platformConfig where
  "PLATFORM_linux =
     \<lparr>command = ''paplay'',
      defaultSound = ''/usr/share/sounds/freedesktop/stereo/complete.oga'',
      soundsPath = ''/usr/share/sounds'',
      extension = ''.oga'',
      commandSuffix = None\<rparr>"

definition PLATFORM_win32 :: platformConfig where
  "PLATFORM_win32 =
     \<lparr>command = ''powershell -c (New-Object Media.SoundPlayer'',
      defaultSound = ''C:'' @ backslash @ ''Windows'' @ backslash @ ''Media'' @ backslash
                     @ ''Windows Notify System Generic.wav'',
      soundsPath = ''C:'' @ backslash @ ''Windows'' @ backslash @ ''Media'',
      extension = ''.wav'',
      commandSuffix = Some '').PlaySync()''\<rparr>"

section \<open>The environment and the two files\<close>

text \<open>
  What the library takes from Node and the operating system is a parameter: the platform
  name (\<^verbatim>\<open>os.platform()\<close>), whether \<^verbatim>\<open>fs.access\<close> succeeds on a path, and the three
  functions of the \<^verbatim>\<open>path\<close> module that the sound lookup calls.
\<close>

record env =
  platform :: string
  access :: "string \<Rightarrow> bool"
  isAbsolute :: "string \<Rightarrow> bool"
  pathJoin :: "string \<Rightarrow> string \<Rightarrow> string"
  pathResolve :: "string \<Rightarrow> string"

text \<open>
  A file is missing, unreadable (its text is not JSON, or the read fails otherwise), or
  holds a document. The settings document is a JSON object: its \<^verbatim>\<open>hooks\<close> mapping (an
  object) when the key is there, and every other top-level key. The backup document is a
  JSON object; \<^verbatim>\<open>getBackupConfig\<close> gives \<^verbatim>\<open>null\<close> for a missing and for an unreadable
  backup file alike. The values under the keys are arbitrary JSON.

  A write (\<^verbatim>\<open>fs.mkdir\<close> and \<^verbatim>\<open>fs.writeFile\<close>) can fail, and the error is fatal: it is
  refused and the file is as it was (no permission, no directory), or it breaks off after
  the file was opened and leaves a text that does not parse (disk full). \<^verbatim>\<open>fs.unlink\<close>
  can fail too, silently, as the code catches it. How the writes and the unlink of a file
  system end is part of its state, and no operation changes it.
\<close>

datatype 'a stored = Missing | Unreadable | Holds 'a

record settings =
  hooks :: "obj option"
  others :: obj

datatype writeMode = Succeeds | Refused | Truncates

record disk =
  settingsFile :: "settings stored"
  backupFile :: "obj stored"
  settingsWrite :: writeMode
  backupWrite :: writeMode
  backupUnlink :: bool

datatype error =
    UnsupportedPlatform string
  | SettingsUnreadable
  | SoundNotFound string
  | IoError
  | TypeError

text \<open>What an operation prints when it returns normally.\<close>

datatype message =
    Configured string string bool
  | NoPreviousConfiguration
  | EventEnabled string
  | NoBackupFor string
  | AllEnabled nat
  | NothingConfigured
  | EventDisabled string
  | NotConfiguredFor string
  | AllDisabled nat
  | Removed string

definition getPlatformConfig :: "env \<Rightarrow> error + platformConfig" where
  "getPlatformConfig e =
     (if platform e = ''darwin'' then Inr PLATFORM_darwin
      else if platform e = ''linux'' then Inr PLATFORM_linux
      else if platform e = ''win32'' then Inr PLATFORM_win32
      else Inl (UnsupportedPlatform (platform e)))"

definition readSettings :: "disk \<Rightarrow> error + settings" where
  "readSettings d =
     (case settingsFile d of
        Missing \<Rightarrow> Inr \<lparr>hooks = None, others = []\<rparr>
      | Unreadable \<Rightarrow> Inl SettingsUnreadable
      | Holds s \<Rightarrow> Inr s)"

text \<open>
  \<^verbatim>\<open>writeSettings\<close>: the document goes through \<^verbatim>\<open>JSON.stringify\<close>. The write of the
  backup in \<^verbatim>\<open>backupCurrentConfig\<close> is the same on the other file.
\<close>

definition reserialiseSettings :: "settings \<Rightarrow> settings" where
  "reserialiseSettings s =
     \<lparr>hooks = map_option reserialiseObj (hooks s), others = reserialiseObj (others s)\<rparr>"

definition writeSettings :: "settings \<Rightarrow> disk \<Rightarrow> (error + unit) \<times> disk" where
  "writeSettings s d =
     (case settingsWrite d of
        Succeeds \<Rightarrow> (Inr (), d\<lparr>settingsFile := Holds (reserialiseSettings s)\<rparr>)
      | Refused \<Rightarrow> (Inl IoError, d)
      | Truncates \<Rightarrow> (Inl IoError, d\<lparr>settingsFile := Unreadable\<rparr>))"

definition writeBackup :: "obj \<Rightarrow> disk \<Rightarrow> (error + unit) \<times> disk" where
  "writeBackup ccnudgeHooks d =
     (case backupWrite d of
        Succeeds \<Rightarrow> (Inr (), d\<lparr>backupFile := Holds (reserialiseObj ccnudgeHooks)\<rparr>)
      | Refused \<Rightarrow> (Inl IoError, d)
      | Truncates \<Rightarrow> (Inl IoError, d\<lparr>backupFile := Unreadable\<rparr>))"

text \<open>An operation whose last step is a write returns its result when the write succeeds.\<close>

definition reported :: "'a \<Rightarrow> (error + unit) \<times> disk \<Rightarrow> (error + 'a) \<times> disk" where
  "reported m r = (case r of (Inl err, d) \<Rightarrow> (Inl err, d) | (Inr u, d) \<Rightarrow> (Inr m, d))"

text \<open>
  The loop of \<^verbatim>\<open>backupCurrentConfig\<close>: for each event name, in order, copy a truthy
  entry. (No event name is a member of the prototype, see \<open>eventNames_own\<close> below, so the
  last case is never taken.)
\<close>

fun copyManaged :: "obj \<Rightarrow> string list \<Rightarrow> obj \<Rightarrow> obj" where
  "copyManaged h [] ccnudgeHooks = ccnudgeHooks"
| "copyManaged h (event # es) ccnudgeHooks =
     copyManaged h es
       (case getProp h event of
          Own v \<Rightarrow> if truthy v then setProp ccnudgeHooks event v else ccnudgeHooks
        | Undefined \<Rightarrow> ccnudgeHooks
        | Inherited \<Rightarrow> ccnudgeHooks)"

definition backupCurrentConfig :: "disk \<Rightarrow> (error + bool) \<times> disk" where
  "backupCurrentConfig d =
     (case readSettings d of
        Inl e \<Rightarrow> (Inl e, d)
      | Inr s \<Rightarrow>
          (case hooks s of
             None \<Rightarrow> (Inr False, d)
           | Some h \<Rightarrow>
               (let ccnudgeHooks = copyManaged h eventNames []
                in if length ccnudgeHooks > 0
                   then reported True (writeBackup ccnudgeHooks d)
                   else (Inr False, d))))"

definition getBackupConfig :: "disk \<Rightarrow> obj option" where
  "getBackupConfig d =
     (case backupFile d of
        Holds b \<Rightarrow> Some b
      | Missing \<Rightarrow> None
      | Unreadable \<Rightarrow> None)"

definition buildSoundCommand :: "env \<Rightarrow> string \<Rightarrow> error + string" where
  "buildSoundCommand e soundPath =
     (case getPlatformConfig e of
        Inl err \<Rightarrow> Inl err
      | Inr config \<Rightarrow>
          if platform e = ''win32''
          then Inr (command config @ '' '' @ [CHR 0x27] @ soundPath @ [CHR 0x27]
                    @ (case commandSuffix config of Some s \<Rightarrow> s | None \<Rightarrow> ''undefined''))
          else Inr (command config @ '' '' @ soundPath))"

definition buildDesktopNotifyCommand :: "env \<Rightarrow> string option" where
  "buildDesktopNotifyCommand e =
     (if platform e = ''darwin''
      then Some (''osascript -e '' @ [CHR 0x27] @ ''display notification '' @ [CHR 0x22]
                 @ ''Claude Code has finished'' @ [CHR 0x22] @ '' with title '' @ [CHR 0x22]
                 @ ''CCNudge'' @ [CHR 0x22] @ '' sound name '' @ [CHR 0x22, CHR 0x22, CHR 0x27])
      else if platform e = ''linux''
      then Some (''notify-send '' @ [CHR 0x22] @ ''CCNudge'' @ [CHR 0x22] @ '' '' @ [CHR 0x22]
                 @ ''Claude Code has finished'' @ [CHR 0x22])
      else if platform e = ''win32''
      then Some (''powershell -c '' @ [CHR 0x22] @ ''New-BurntToastNotification -Text ''
                 @ [CHR 0x27] @ ''CCNudge'' @ [CHR 0x27] @ '', '' @ [CHR 0x27]
                 @ ''Claude Code has finished'' @ [CHR 0x27, CHR 0x22])
      else None)"

section \<open>Setup\<close>

text \<open>
  The sound lookup at the head of \<^verbatim>\<open>setupNotification\<close> (the same lines open
  \<^verbatim>\<open>testSound\<close>): no path, or the empty string, means the platform's default sound; a
  relative name is tried in the system sounds directory, then against the working
  directory; the last check is the \<^verbatim>\<open>fs.access\<close> on the path chosen.
\<close>

definition resolveSoundPath :: "env \<Rightarrow> platformConfig \<Rightarrow> string option \<Rightarrow> error + string" where
  "resolveSoundPath e config soundPath =
     (case (case soundPath of
              None \<Rightarrow> Inr (defaultSound config)
            | Some p \<Rightarrow>
                if p = [] then Inr (defaultSound config)
                else if isAbsolute e p then Inr p
                else (let systemSoundPath = pathJoin e (soundsPath config) (p @ extension config)
                      in if access e systemSoundPath then Inr systemSoundPath
                         else (let absolutePath = pathResolve e p
                               in if access e absolutePath then Inr absolutePath
                                  else Inl (SoundNotFound p)))) of
        Inl err \<Rightarrow> Inl err
      | Inr sp \<Rightarrow> if access e sp then Inr sp else Inl (SoundNotFound sp))"

definition hookEntry :: "string \<Rightarrow> json" where
  "hookEntry c = JObj [(''type'', JStr ''command''), (''command'', JStr c)]"

text \<open>
  The array \<^verbatim>\<open>hooks\<close> that \<^verbatim>\<open>setupNotification\<close> fills: the sound entry, then the
  desktop notification entry when it is asked for and the platform has a command for it;
  and the value stored under the event, \<^verbatim>\<open>[{ hooks: hooks }]\<close>.
\<close>

definition buildHooks :: "env \<Rightarrow> string \<Rightarrow> bool \<Rightarrow> json list" where
  "buildHooks e soundCommand enableDesktopNotify =
     hookEntry soundCommand #
     (if enableDesktopNotify
      then (case buildDesktopNotifyCommand e of
              Some notifyCommand \<Rightarrow> [hookEntry notifyCommand]
            | None \<Rightarrow> [])
      else [])"

definition hookGroups :: "json list \<Rightarrow> json" where
  "hookGroups hs = JArr [JObj [(''hooks'', JArr hs)]]"

definition hooksOrEmpty :: "settings \<Rightarrow> obj" where
  "hooksOrEmpty s = (case hooks s of None \<Rightarrow> [] | Some h \<Rightarrow> h)"

definition setupNotification ::
  "env \<Rightarrow> string \<Rightarrow> string option \<Rightarrow> bool \<Rightarrow> disk \<Rightarrow> (error + message) \<times> disk" where
  "setupNotification e event soundPath enableDesktopNotify d =
     (case getPlatformConfig e of
        Inl err \<Rightarrow> (Inl err, d)
      | Inr config \<Rightarrow>
          (case backupCurrentConfig d of
             (Inl err, d1) \<Rightarrow> (Inl err, d1)
           | (Inr b, d1) \<Rightarrow>
               (case resolveSoundPath e config soundPath of
                  Inl err \<Rightarrow> (Inl err, d1)
                | Inr sp \<Rightarrow>
                    (case readSettings d1 of
                       Inl err \<Rightarrow> (Inl err, d1)
                     | Inr s \<Rightarrow>
                         (case buildSoundCommand e sp of
                            Inl err \<Rightarrow> (Inl err, d1)
                          | Inr soundCommand \<Rightarrow>
                              (let h = setProp (hooksOrEmpty s) event
                                         (hookGroups
                                            (buildHooks e soundCommand enableDesktopNotify))
                               in reported (Configured event sp enableDesktopNotify)
                                    (writeSettings (s\<lparr>hooks := Some h\<rparr>) d1)))))))"

section \<open>Enable and disable\<close>

text \<open>
  \<^verbatim>\<open>if (event)\<close>: the argument counts as given when it is a non-empty string; \<^verbatim>\<open>null\<close>
  (the default) and the empty string select all events.
\<close>

definition eventArg :: "string option \<Rightarrow> string option" where
  "eventArg event = (case event of None \<Rightarrow> None | Some ev \<Rightarrow> if ev = [] then None else Some ev)"

definition enableNotifications :: "string option \<Rightarrow> disk \<Rightarrow> (error + message) \<times> disk" where
  "enableNotifications event d =
     (case getBackupConfig d of
        None \<Rightarrow> (Inr NoPreviousConfiguration, d)
      | Some backup \<Rightarrow>
          (case readSettings d of
             Inl err \<Rightarrow> (Inl err, d)
           | Inr s \<Rightarrow>
               (case eventArg event of
                  Some ev \<Rightarrow>
                    (case getProp backup ev of
                       Own v \<Rightarrow>
                         if truthy v
                         then reported (EventEnabled ev)
                                (writeSettings
                                   (s\<lparr>hooks := Some (setProp (hooksOrEmpty s) ev v)\<rparr>) d)
                         else (Inr (NoBackupFor ev), d)
                     | Inherited \<Rightarrow>
                         reported (EventEnabled ev)
                           (writeSettings
                              (s\<lparr>hooks := Some (setInherited (hooksOrEmpty s) ev)\<rparr>) d)
                     | Undefined \<Rightarrow> (Inr (NoBackupFor ev), d))
                | None \<Rightarrow>
                    reported (AllEnabled (length backup))
                      (writeSettings
                         (s\<lparr>hooks := Some (objectAssign (hooksOrEmpty s) backup)\<rparr>) d))))"

text \<open>
  \<^verbatim>\<open>eventNames.filter(e => settings.hooks && settings.hooks[e])\<close>, also the filter of
  \<^verbatim>\<open>getStatus\<close>.
\<close>

definition configuredEvents :: "settings \<Rightarrow> string list" where
  "configuredEvents s =
     filter (\<lambda>e. case hooks s of None \<Rightarrow> False | Some h \<Rightarrow> truthyVal (getProp h e)) eventNames"

text \<open>The tail of \<^verbatim>\<open>disableNotifications\<close> and \<^verbatim>\<open>removeNotification\<close>: drop an empty \<^verbatim>\<open>hooks\<close>.\<close>

definition cleanUp :: "settings \<Rightarrow> obj \<Rightarrow> settings" where
  "cleanUp s h = s\<lparr>hooks := (if length h = 0 then None else Some h)\<rparr>"

fun deleteAll :: "obj \<Rightarrow> string list \<Rightarrow> obj" where
  "deleteAll h [] = h"
| "deleteAll h (evt # es) = deleteAll (deleteProp h evt) es"

definition disableNotifications :: "string option \<Rightarrow> disk \<Rightarrow> (error + message) \<times> disk" where
  "disableNotifications event d =
     (case readSettings d of
        Inl err \<Rightarrow> (Inl err, d)
      | Inr s \<Rightarrow>
          if length (configuredEvents s) = 0 then (Inr NothingConfigured, d)
          else
            (case backupCurrentConfig d of
               (Inl err, d1) \<Rightarrow> (Inl err, d1)
             | (Inr b, d1) \<Rightarrow>
                 (case eventArg event of
                    Some ev \<Rightarrow>
                      (case hooks s of
                         None \<Rightarrow> (Inr (NotConfiguredFor ev), d1)
                       | Some h \<Rightarrow>
                           if truthyVal (getProp h ev)
                           then reported (EventDisabled ev)
                                  (writeSettings (cleanUp s (deleteProp h ev)) d1)
                           else (Inr (NotConfiguredFor ev), d1))
                  | None \<Rightarrow>
                      reported (AllDisabled (length (configuredEvents s)))
                        (writeSettings
                           (cleanUp s (deleteAll (hooksOrEmpty s) (configuredEvents s))) d1))))"

section \<open>Remove\<close>

text \<open>\<^verbatim>\<open>fs.unlink(backupPath)\<close> inside \<^verbatim>\<open>try\<close>: a failure is ignored and the file stays.\<close>

definition unlinkBackup :: "disk \<Rightarrow> disk" where
  "unlinkBackup d = (if backupUnlink d then d\<lparr>backupFile := Missing\<rparr> else d)"

definition removeNotification :: "string \<Rightarrow> disk \<Rightarrow> (error + message) \<times> disk" where
  "removeNotification event d =
     (case readSettings d of
        Inl err \<Rightarrow> (Inl err, d)
      | Inr s \<Rightarrow>
          (case hooks s of
             None \<Rightarrow> (Inr (NotConfiguredFor event), d)
           | Some h \<Rightarrow>
               if truthyVal (getProp h event)
               then reported (Removed event)
                      (writeSettings (cleanUp s (deleteProp h event)) (unlinkBackup d))
               else (Inr (NotConfiguredFor event), d)))"

section \<open>Status\<close>

text \<open>
  The pattern \<^verbatim>\<open>/\/[^\s]+\.(aiff|wav|mp3|oga)/\<close> of \<^verbatim>\<open>getStatus\<close>. \<open>isSpace\<close> is the class
  \<^verbatim>\<open>\s\<close> on the characters a \<open>char\<close> can hold. \<open>extensionAt\<close> is the tail
  \<^verbatim>\<open>\.(aiff|wav|mp3|oga)\<close> at the head of a text. \<open>greedyRun\<close> matches \<^verbatim>\<open>[^\s]+\<close> and
  then the tail, on the text after the slash: the quantifier is greedy, so a longer run is
  tried before the run stops at the current character. \<open>matchSound\<close> is the leftmost
  match, as \<^verbatim>\<open>String.prototype.match\<close> returns it in \<^verbatim>\<open>match[0]\<close>.
\<close>

definition isSpace :: "char \<Rightarrow> bool" where
  "isSpace c = (c \<in> set [CHR 0x09, CHR 0x0A, CHR 0x0B, CHR 0x0C, CHR 0x0D, CHR 0x20, CHR 0xA0])"

definition extensionAt :: "string \<Rightarrow> string option" where
  "extensionAt t =
     find (\<lambda>x. prefix x t) [''.aiff'', ''.wav'', ''.mp3'', ''.oga'']"

fun greedyRun :: "string \<Rightarrow> string option" where
  "greedyRun [] = None"
| "greedyRun (c # cs) =
     (if isSpace c then None
      else (case greedyRun cs of
              Some r \<Rightarrow> Some (c # r)
            | None \<Rightarrow> (case extensionAt cs of Some x \<Rightarrow> Some (c # x) | None \<Rightarrow> None)))"

fun matchSound :: "string \<Rightarrow> string option" where
  "matchSound [] = None"
| "matchSound (c # cs) =
     (if c = CHR ''/''
      then (case greedyRun cs of Some r \<Rightarrow> Some (c # r) | None \<Rightarrow> matchSound cs)
      else matchSound cs)"

text \<open>What \<^verbatim>\<open>getStatus\<close> prints, line by line (the banner and the blank lines left out).\<close>

datatype line =
    StatusEnabled nat
  | EventLine string
  | SoundLine string
  | DesktopLine bool
  | StatusDisabled nat
  | EventsLine "string list"
  | StatusNotConfigured

text \<open>
  \<^verbatim>\<open>settings.hooks[event][0]?.hooks || []\<close> on the entry of a configured event (a truthy
  value): index 0 of an array, of a string, or the own property \<^verbatim>\<open>0\<close> of an object; then
  the own property \<^verbatim>\<open>hooks\<close> when that is an object; a falsy result becomes \<^verbatim>\<open>[]\<close>.
\<close>

definition index0 :: "json \<Rightarrow> json option" where
  "index0 v =
     (case v of
        JArr xs \<Rightarrow> (case xs of [] \<Rightarrow> None | x # rest \<Rightarrow> Some x)
      | JStr s \<Rightarrow> (case s of [] \<Rightarrow> None | c # rest \<Rightarrow> Some (JStr [c]))
      | JObj kvs \<Rightarrow> map_of kvs ''0''
      | JNull \<Rightarrow> None
      | JBool b \<Rightarrow> None
      | JNum n \<Rightarrow> None)"

definition groupHooks :: "json \<Rightarrow> json" where
  "groupHooks v =
     (case index0 v of
        Some (JObj kvs) \<Rightarrow>
          (case map_of kvs ''hooks'' of
             Some hs \<Rightarrow> if truthy hs then hs else JArr []
           | None \<Rightarrow> JArr [])
      | Some other \<Rightarrow> JArr []
      | None \<Rightarrow> JArr [])"

text \<open>
  \<^verbatim>\<open>h.command?.includes(m)\<close>: reading \<^verbatim>\<open>command\<close> of \<^verbatim>\<open>null\<close> throws; a missing or
  \<^verbatim>\<open>null\<close> command gives \<^verbatim>\<open>undefined\<close> (falsy); a string or an array has an
  \<^verbatim>\<open>includes\<close> method; on any other command the call throws.
\<close>

definition commandIncludes :: "json \<Rightarrow> string \<Rightarrow> error + bool" where
  "commandIncludes h m =
     (case h of
        JNull \<Rightarrow> Inl TypeError
      | JObj kvs \<Rightarrow>
          (case map_of kvs ''command'' of
             None \<Rightarrow> Inr False
           | Some c \<Rightarrow>
               (case c of
                  JNull \<Rightarrow> Inr False
                | JStr s \<Rightarrow> Inr (includesStr s m)
                | JArr xs \<Rightarrow> Inr (JStr m \<in> set xs)
                | JBool b \<Rightarrow> Inl TypeError
                | JNum n \<Rightarrow> Inl TypeError
                | JObj o' \<Rightarrow> Inl TypeError))
      | JBool b \<Rightarrow> Inr False
      | JNum n \<Rightarrow> Inr False
      | JStr s \<Rightarrow> Inr False
      | JArr xs \<Rightarrow> Inr False)"

text \<open>\<^verbatim>\<open>a || b || c\<close> over the markers, left to right.\<close>

fun anyIncludes :: "json \<Rightarrow> string list \<Rightarrow> error + bool" where
  "anyIncludes h [] = Inr False"
| "anyIncludes h (m # ms) =
     (case commandIncludes h m of
        Inl err \<Rightarrow> Inl err
      | Inr b \<Rightarrow> if b then Inr True else anyIncludes h ms)"

definition soundMarkers :: "string list" where
  "soundMarkers = [''afplay'', ''paplay'', ''Media.SoundPlayer'']"

definition notifyMarkers :: "string list" where
  "notifyMarkers = [''osascript'', ''notify-send'', ''New-BurntToastNotification'']"

text \<open>\<^verbatim>\<open>hooks.find(...)\<close> and \<^verbatim>\<open>hooks.some(...)\<close> over the elements of an array.\<close>

fun findHook :: "json list \<Rightarrow> string list \<Rightarrow> error + json option" where
  "findHook [] ms = Inr None"
| "findHook (h # hs) ms =
     (case anyIncludes h ms of
        Inl err \<Rightarrow> Inl err
      | Inr b \<Rightarrow> if b then Inr (Some h) else findHook hs ms)"

fun someHook :: "json list \<Rightarrow> string list \<Rightarrow> error + bool" where
  "someHook [] ms = Inr False"
| "someHook (h # hs) ms =
     (case anyIncludes h ms of
        Inl err \<Rightarrow> Inl err
      | Inr b \<Rightarrow> if b then Inr True else someHook hs ms)"

text \<open>
  \<^verbatim>\<open>soundHook.command.match(...)\<close> and the text of the \<^verbatim>\<open>Sound:\<close> line. The hook found
  has a string command, or an array (which has no \<^verbatim>\<open>match\<close> method).
\<close>

definition soundText :: "json \<Rightarrow> error + string" where
  "soundText soundHook =
     (case soundHook of
        JObj kvs \<Rightarrow>
          (case map_of kvs ''command'' of
             Some (JStr c) \<Rightarrow> Inr (case matchSound c of Some m \<Rightarrow> m | None \<Rightarrow> c)
           | Some other \<Rightarrow> Inl TypeError
           | None \<Rightarrow> Inl TypeError)
      | JNull \<Rightarrow> Inl TypeError
      | JBool b \<Rightarrow> Inl TypeError
      | JNum n \<Rightarrow> Inl TypeError
      | JStr s \<Rightarrow> Inl TypeError
      | JArr xs \<Rightarrow> Inl TypeError)"

text \<open>
  The body of the loop over the configured events: the lines printed for one event, and
  the error if the body throws. A \<^verbatim>\<open>hooks\<close> value that is not an array has no \<^verbatim>\<open>find\<close>.
\<close>

definition describeEvent :: "string \<Rightarrow> json \<Rightarrow> line list \<times> error option" where
  "describeEvent event entry =
     (case groupHooks entry of
        JArr hs \<Rightarrow>
          (case findHook hs soundMarkers of
             Inl err \<Rightarrow> ([EventLine event], Some err)
           | Inr soundHook \<Rightarrow>
               (case (case soundHook of
                        None \<Rightarrow> Inr []
                      | Some sh \<Rightarrow>
                          (case soundText sh of
                             Inl err \<Rightarrow> Inl err
                           | Inr t \<Rightarrow> Inr [SoundLine t])) of
                  Inl err \<Rightarrow> ([EventLine event], Some err)
                | Inr soundLines \<Rightarrow>
                    (case someHook hs notifyMarkers of
                       Inl err \<Rightarrow> (EventLine event # soundLines, Some err)
                     | Inr hasDesktopNotify \<Rightarrow>
                         (EventLine event # soundLines @ [DesktopLine hasDesktopNotify], None))))
      | JNull \<Rightarrow> ([EventLine event], Some TypeError)
      | JBool b \<Rightarrow> ([EventLine event], Some TypeError)
      | JNum n \<Rightarrow> ([EventLine event], Some TypeError)
      | JStr s \<Rightarrow> ([EventLine event], Some TypeError)
      | JObj kvs \<Rightarrow> ([EventLine event], Some TypeError))"

fun reportEvents :: "obj \<Rightarrow> string list \<Rightarrow> line list \<times> error option" where
  "reportEvents h [] = ([], None)"
| "reportEvents h (event # es) =
     (case map_of h event of
        None \<Rightarrow> ([EventLine event], Some TypeError)
      | Some entry \<Rightarrow>
          (case describeEvent event entry of
             (ls, Some err) \<Rightarrow> (ls, Some err)
           | (ls, None) \<Rightarrow>
               (case reportEvents h es of (ls', r) \<Rightarrow> (ls @ ls', r))))"

definition getStatus :: "disk \<Rightarrow> line list \<times> error option" where
  "getStatus d =
     (case readSettings d of
        Inl err \<Rightarrow> ([], Some err)
      | Inr s \<Rightarrow>
          if length (configuredEvents s) > 0
          then (case reportEvents (hooksOrEmpty s) (configuredEvents s) of
                  (ls, r) \<Rightarrow> (StatusEnabled (length (configuredEvents s)) # ls, r))
          else (case getBackupConfig d of
                  Some backup \<Rightarrow>
                    ([StatusDisabled (length backup), EventsLine (map fst backup)], None)
                | None \<Rightarrow> ([StatusNotConfigured], None)))"

section \<open>Auxiliary notions and example states\<close>

text \<open>An own property with a truthy value: what \<^verbatim>\<open>if (o[k])\<close> tests for a key that is not a member of the prototype.\<close>

definition ownTruthy :: "obj \<Rightarrow> string \<Rightarrow> bool" where
  "ownTruthy h k = (case map_of h k of Some v \<Rightarrow> truthy v | None \<Rightarrow> False)"

text \<open>The object that \<^verbatim>\<open>backupCurrentConfig\<close> builds from a \<^verbatim>\<open>hooks\<close> mapping.\<close>

definition snapshot :: "obj \<Rightarrow> obj" where
  "snapshot h = copyManaged h eventNames []"

text \<open>
  What a settings file gives for a key of \<^verbatim>\<open>hooks\<close>, and its other top-level keys, as
  \<^verbatim>\<open>readSettings\<close> sees them (a missing file reads as the empty document; an unreadable
  one gives nothing).
\<close>

definition hooksAt :: "disk \<Rightarrow> string \<Rightarrow> json option" where
  "hooksAt d k =
     (case settingsFile d of
        Holds s \<Rightarrow> map_of (hooksOrEmpty s) k
      | Missing \<Rightarrow> None
      | Unreadable \<Rightarrow> None)"

definition othersOf :: "disk \<Rightarrow> obj" where
  "othersOf d =
     (case settingsFile d of
        Holds s \<Rightarrow> others s
      | Missing \<Rightarrow> []
      | Unreadable \<Rightarrow> [])"

text \<open>
  A settings document with one managed event, one entry of the host application under a
  name outside the event list, and one other top-level key; and an environment where
  every sound file exists and every path is absolute.
\<close>

definition stopEntry :: json where
  "stopEntry = JArr [JObj [(''hooks'', JArr [hookEntry ''afplay /System/Library/Sounds/Glass.aiff''])]]"

definition customEntry :: json where
  "customEntry = JArr [JObj [(''matcher'', JStr ''Bash''), (''hooks'', JArr [hookEntry ''echo done''])]]"

definition exampleHooks :: obj where
  "exampleHooks = [(''Stop'', stopEntry), (''Custom'', customEntry)]"

definition exampleSettings :: settings where
  "exampleSettings = \<lparr>hooks = Some exampleHooks, others = [(''model'', JStr ''opus'')]\<rparr>"

text \<open>A file system where every write and the unlink succeed.\<close>

definition healthy :: "settings stored \<Rightarrow> obj stored \<Rightarrow> disk" where
  "healthy sf bf =
     \<lparr>settingsFile = sf, backupFile = bf, settingsWrite = Succeeds, backupWrite = Succeeds,
      backupUnlink = True\<rparr>"

definition exampleDisk :: disk where
  "exampleDisk = healthy (Holds exampleSettings) Missing"

text \<open>The same installation after \<^verbatim>\<open>ccnudge stop\<close>: the managed entry is in the backup file.\<close>

definition disabledDisk :: disk where
  "disabledDisk =
     healthy (Holds \<lparr>hooks = Some [(''Custom'', customEntry)],
                     others = [(''model'', JStr ''opus'')]\<rparr>)
       (Holds [(''Stop'', stopEntry)])"

text \<open>An environment where no sound file can be found, and a backup file holding \<^verbatim>\<open>{}\<close>.\<close>

definition noSoundEnv :: env where
  "noSoundEnv =
     \<lparr>platform = ''darwin'', access = (\<lambda>f. False), isAbsolute = (\<lambda>f. False),
      pathJoin = (\<lambda>a b. a @ ''/'' @ b), pathResolve = (\<lambda>f. ''/home/user/'' @ f)\<rparr>"

definition emptyBackupDisk :: disk where
  "emptyBackupDisk = healthy Missing (Holds [])"

text \<open>An installation with the one managed event only, and one with no file at all.\<close>

definition stopOnlyDisk :: disk where
  "stopOnlyDisk = healthy (Holds \<lparr>hooks = Some [(''Stop'', stopEntry)], others = []\<rparr>) Missing"

text \<open>Settings where the host application has an entry with an empty sequence.\<close>

definition emptySequenceDisk :: disk where
  "emptySequenceDisk =
     healthy (Holds \<lparr>hooks = Some [(''Stop'', stopEntry), (''Custom'', JArr [])],
                     others = []\<rparr>)
       Missing"

definition freshDisk :: disk where
  "freshDisk = healthy Missing Missing"

text \<open>
  Settings with a numeral that no double holds (\<open>2 ^ 53 + 1\<close>) under another top-level
  key, and settings with one beyond the range of the doubles (\<^verbatim>\<open>1e400\<close>). The example
  installation with an older backup file, on a file system that refuses
  to write the settings file; the example installation on a file system where a write of
  the settings file breaks off and leaves a file that does not parse. An installation
  where no settings file can be read.
\<close>

definition bigNumberDisk :: disk where
  "bigNumberDisk =
     healthy (Holds \<lparr>hooks = Some [(''Stop'', stopEntry)],
                     others = [(''big'', JNum 9007199254740993)]\<rparr>)
       Missing"

definition hugeNumberDisk :: disk where
  "hugeNumberDisk =
     healthy (Holds \<lparr>hooks = Some [(''Stop'', stopEntry)],
                     others = [(''big'', JNum (10 ^ 400))]\<rparr>)
       Missing"

definition readOnlySettingsDisk :: disk where
  "readOnlySettingsDisk =
     (healthy (Holds exampleSettings) (Holds [(''Notification'', stopEntry)]))
       \<lparr>settingsWrite := Refused\<rparr>"

definition truncatingDisk :: disk where
  "truncatingDisk = exampleDisk\<lparr>settingsWrite := Truncates\<rparr>"

definition unreadableDisk :: disk where
  "unreadableDisk = healthy Unreadable Missing"

definition exampleEnv :: "string \<Rightarrow> env" where
  "exampleEnv p =
     \<lparr>platform = p, access = (\<lambda>f. True), isAbsolute = (\<lambda>f. True),
      pathJoin = (\<lambda>a b. a @ ''/'' @ b), pathResolve = (\<lambda>f. f)\<rparr>"

section \<open>Basic facts\<close>

lemma eventNames_eq:
  "eventNames = [''Stop'', ''SubagentStop'', ''PostToolUse'', ''PreToolUse'',
     ''UserPromptSubmit'', ''Notification'', ''SessionStart'', ''SessionEnd'', ''PreCompact'']"
  by (simp add: eventNames_def AVAILABLE_EVENTS_def)

lemma eventNames_own: "e \<in> set eventNames \<Longrightarrow> e \<notin> set objectPrototypeNames"
  by (auto simp: eventNames_eq objectPrototypeNames_def)

lemma proto_not_event: "''__proto__'' \<notin> set eventNames"
  by (simp add: eventNames_eq)

lemma getProp_managed:
  "e \<in> set eventNames \<Longrightarrow>
   getProp h e = (case map_of h e of Some v \<Rightarrow> Own v | None \<Rightarrow> Undefined)"
  using eventNames_own[of e] by (simp add: getProp_def split: option.splits)

lemma truthyVal_managed: "e \<in> set eventNames \<Longrightarrow> truthyVal (getProp h e) = ownTruthy h e"
  by (simp add: getProp_managed ownTruthy_def split: option.splits)

lemma set_configuredEvents:
  "hooks s = Some h \<Longrightarrow> set (configuredEvents s) = {e \<in> set eventNames. ownTruthy h e}"
  by (auto simp: configuredEvents_def truthyVal_managed)

lemma configuredEvents_no_hooks: "hooks s = None \<Longrightarrow> configuredEvents s = []"
  by (simp add: configuredEvents_def)

lemma map_of_copyManaged:
  "set es \<subseteq> set eventNames \<Longrightarrow>
   map_of (copyManaged h es acc) k =
     (if k \<in> set es \<and> ownTruthy h k then map_of h k else map_of acc k)"
proof (induction es arbitrary: acc)
  case Nil
  then show ?case by simp
next
  case (Cons e es)
  then have e: "e \<in> set eventNames" and es: "set es \<subseteq> set eventNames" by auto
  have ne: "e \<noteq> ''__proto__''" using e proto_not_event by auto
  show ?case
    using Cons.IH[OF es] ne
    by (auto simp: getProp_managed[OF e] setProp_def ownTruthy_def update_conv'
        split: option.splits)
qed

lemma keys_copyManaged:
  assumes "set es \<subseteq> set eventNames"
  shows "fst ` set (copyManaged h es acc) = fst ` set acc \<union> {e \<in> set es. ownTruthy h e}"
proof -
  have "dom (map_of (copyManaged h es acc)) = dom (map_of acc) \<union> {e \<in> set es. ownTruthy h e}"
    by (auto simp: map_of_copyManaged[OF assms] dom_def ownTruthy_def
        split: if_splits option.splits)
  then show ?thesis by (simp add: dom_map_of_conv_image_fst)
qed

lemma distinct_copyManaged:
  "set es \<subseteq> set eventNames \<Longrightarrow> distinct (map fst acc) \<Longrightarrow>
   distinct (map fst (copyManaged h es acc))"
proof (induction es arbitrary: acc)
  case Nil
  then show ?case by simp
next
  case (Cons e es)
  then have e: "e \<in> set eventNames" and es: "set es \<subseteq> set eventNames" by auto
  show ?case
    using Cons.IH[OF es] Cons.prems(2)
    by (auto simp: getProp_managed[OF e] setProp_def distinct_update split: option.splits)
qed

lemma map_of_snapshot:
  "map_of (snapshot h) k = (if k \<in> set eventNames \<and> ownTruthy h k then map_of h k else None)"
  by (simp add: snapshot_def map_of_copyManaged)

lemma keys_snapshot: "fst ` set (snapshot h) = {e \<in> set eventNames. ownTruthy h e}"
  by (simp add: snapshot_def keys_copyManaged)

lemma distinct_snapshot: "distinct (map fst (snapshot h))"
  by (simp add: snapshot_def distinct_copyManaged)

lemma snapshot_no_proto: "''__proto__'' \<notin> fst ` set (snapshot h)"
  using proto_not_event by (simp add: keys_snapshot)

lemma snapshot_empty_iff:
  assumes "hooks s = Some h"
  shows "(snapshot h = []) = (configuredEvents s = [])"
proof -
  have "(snapshot h = []) = (fst ` set (snapshot h) = {})" by simp
  also have "\<dots> = (set (configuredEvents s) = {})"
    by (simp only: keys_snapshot set_configuredEvents[OF assms])
  finally show ?thesis by simp
qed

lemma map_of_deleteAll:
  "map_of (deleteAll h es) k = (if k \<in> set es then None else map_of h k)"
  by (induction es arbitrary: h) (auto simp: deleteProp_def delete_conv')

lemma map_of_objectAssign_distinct:
  "''__proto__'' \<notin> fst ` set b \<Longrightarrow> distinct (map fst b) \<Longrightarrow>
   map_of (objectAssign h b) = map_of h ++ map_of b"
proof (induction b arbitrary: h)
  case Nil
  then show ?case by simp
next
  case (Cons p b)
  obtain k v where p: "p = (k, v)" by (cases p)
  from Cons.prems p have k: "k \<noteq> ''__proto__''" and b: "''__proto__'' \<notin> fst ` set b"
    and d: "distinct (map fst b)" and kb: "map_of b k = None"
    by (auto simp: map_of_eq_None_iff)
  show ?case
    using Cons.IH[OF b d] k kb
    by (auto simp: p setProp_def update_conv' fun_eq_iff map_add_def split: option.splits)
qed

lemma hooksOrEmpty_cleanUp: "hooksOrEmpty (cleanUp s h) = h"
  by (simp add: hooksOrEmpty_def cleanUp_def)

lemma others_cleanUp: "others (cleanUp s h) = others s"
  by (simp add: cleanUp_def)

lemma update_commute_own:
  "k \<noteq> k1 \<Longrightarrow> map_of g k \<noteq> None \<Longrightarrow>
   AList.update k1 v1 (AList.update k v g) = AList.update k v (AList.update k1 v1 g)"
  by (induction g) auto

lemma setProp_own: "map_of g k \<noteq> None \<Longrightarrow> setProp g k v = AList.update k v g"
  by (auto simp: setProp_def)

lemma map_of_setProp_other: "k' \<noteq> k \<Longrightarrow> map_of (setProp g k v) k' = map_of g k'"
  by (simp add: setProp_def update_conv')

lemma setProp_keeps_own: "map_of g k \<noteq> None \<Longrightarrow> map_of (setProp g k1 v1) k \<noteq> None"
  by (auto simp: setProp_def update_conv')

lemma setProp_proto_absent:
  "map_of g ''__proto__'' = None \<Longrightarrow> map_of (setProp g k v) ''__proto__'' = None"
  by (auto simp: setProp_def update_conv')

lemma objectAssign_other: "k \<notin> fst ` set b \<Longrightarrow> map_of (objectAssign g b) k = map_of g k"
  by (induction g b rule: objectAssign.induct) (auto simp: map_of_setProp_other)

lemma objectAssign_keeps_own: "map_of g k \<noteq> None \<Longrightarrow> map_of (objectAssign g b) k \<noteq> None"
  by (induction g b rule: objectAssign.induct) (auto simp: setProp_keeps_own)

lemma objectAssign_proto_absent:
  "map_of g ''__proto__'' = None \<Longrightarrow> map_of (objectAssign g b) ''__proto__'' = None"
  by (induction g b rule: objectAssign.induct) (auto simp: setProp_proto_absent)

lemma objectAssign_overwritten:
  "k \<in> fst ` set b \<Longrightarrow> map_of g k \<noteq> None \<Longrightarrow>
   objectAssign (AList.update k v g) b = objectAssign g b"
proof (induction g b rule: objectAssign.induct)
  case (1 target)
  then show ?case by simp
next
  case (2 target k1 v1 src)
  show ?case
  proof (cases "k1 = k")
    case True
    then show ?thesis using 2(3) by (auto simp: setProp_def update_conv')
  next
    case False
    with 2(2) have ks: "k \<in> fst ` set src" by auto
    show ?thesis
    proof (cases "k1 = ''__proto__'' \<and> map_of target k1 = None")
      case True
      with False have "setProp (AList.update k v target) k1 v1 = AList.update k v target"
        "setProp target k1 v1 = target"
        by (auto simp: setProp_def update_conv')
      then show ?thesis using 2(1)[OF ks] True 2(3) by simp
    next
      case F2: False
      with False have a: "setProp (AList.update k v target) k1 v1
            = AList.update k1 v1 (AList.update k v target)"
        and b: "setProp target k1 v1 = AList.update k1 v1 target"
        by (auto simp: setProp_def update_conv')
      have own: "map_of (setProp target k1 v1) k \<noteq> None"
        using 2(3) by (rule setProp_keeps_own)
      show ?thesis
        using 2(1)[OF ks own] False 2(3)
        by (simp add: a update_commute_own[of k k1 target v1 v] b)
    qed
  qed
qed

lemma setProp_again:
  "map_of g k = Some v \<or> (k = ''__proto__'' \<and> map_of g k = None) \<Longrightarrow> setProp g k v = g"
  by (auto simp: setProp_def update_triv)

lemma objectAssign_idem: "objectAssign (objectAssign h b) b = objectAssign h b"
proof (induction h b rule: objectAssign.induct)
  case (1 target)
  then show ?case by simp
next
  case (2 target k v src)
  let ?g = "setProp target k v"
  let ?G = "objectAssign ?g src"
  have step: "objectAssign (setProp ?G k v) src = objectAssign ?G src"
  proof (cases "k = ''__proto__'' \<and> map_of target k = None")
    case True
    then have "map_of ?G ''__proto__'' = None"
      by (intro objectAssign_proto_absent setProp_proto_absent) blast
    with True show ?thesis by (simp add: setProp_def)
  next
    case False
    then have g: "?g = AList.update k v target" by (auto simp: setProp_def)
    then have gk: "map_of ?g k = Some v" by (simp add: update_conv')
    then have own: "map_of ?G k \<noteq> None" by (simp add: objectAssign_keeps_own)
    show ?thesis
    proof (cases "k \<in> fst ` set src")
      case True
      then show ?thesis using own by (simp add: setProp_own objectAssign_overwritten)
    next
      case False
      then have "map_of ?G k = Some v" using gk by (simp add: objectAssign_other)
      then show ?thesis by (simp add: setProp_again)
    qed
  qed
  show ?case using 2 step by simp
qed

lemma setProp_idem: "setProp (setProp g k v) k v = setProp g k v"
  by (auto simp: setProp_def update_conv')

lemma setInherited_idem: "setInherited (setInherited g k) k = setInherited g k"
  by (auto simp: setInherited_def update_conv' delete_idem)

lemma map_of_setInherited_other: "k' \<noteq> k \<Longrightarrow> map_of (setInherited g k) k' = map_of g k'"
  by (auto simp: setInherited_def update_conv' delete_conv')


lemma configuredEvents_subset: "set (configuredEvents s) \<subseteq> set eventNames"
  by (auto simp: configuredEvents_def)

lemma hooks_cleanUp_not_empty: "hooks (cleanUp s h) \<noteq> Some []"
  by (simp add: cleanUp_def)

lemma setProp_present: "k \<noteq> ''__proto__'' \<Longrightarrow> map_of (setProp g k v) k = Some v"
  by (simp add: setProp_def update_conv')


text \<open>
  Numbers: \<open>floorLog2\<close> is the binary exponent, and a numeral of magnitude \<open>2 ^ 1024\<close> or
  more has no double, so that it is written back as \<^verbatim>\<open>null\<close>.
\<close>

lemma pow2_pos: "0 < pow2 p"
  by (simp add: pow2_def)

lemma pow2_powi: "pow2 p = 2 powi p"
  by (auto simp: pow2_def power_int_def inverse_eq_divide power_one_over)

lemma pow2_add: "pow2 (i + j) = pow2 i * pow2 j"
  by (simp add: pow2_powi power_int_add)

lemma pow2_of_nat: "0 \<le> p \<Longrightarrow> pow2 p = of_int (2 ^ nat p)"
  by (simp add: pow2_def)

lemma pow2_mono_strict: "i < j \<Longrightarrow> pow2 i < pow2 j"
  by (simp add: pow2_powi power_int_strict_increasing)

lemma pow2_mono: "i \<le> j \<Longrightarrow> pow2 i \<le> pow2 j"
  by (simp add: pow2_powi power_int_increasing)

lemma pow2_less_iff: "(pow2 i < pow2 j) = (i < j)"
  using pow2_mono_strict[of i j] pow2_mono[of j i] by (auto simp: not_less[symmetric])

lemma floorLog2_bounds:
  assumes "0 < a"
  shows "pow2 (floorLog2 a) \<le> a \<and> a < pow2 (floorLog2 a + 1)"
proof -
  obtain n d where q: "quotient_of a = (n, d)" by force
  have d: "0 < d" using quotient_of_denom_pos[OF q] .
  have a: "a = of_int n / of_int d" using quotient_of_div[OF q] .
  have n: "0 < n" using assms d a by (simp add: zero_less_divide_iff)
  let ?k = "bitlen n - bitlen d"
  have pb: "of_int x < pow2 (bitlen x) \<and> pow2 (bitlen x - 1) \<le> of_int x" if "0 < x" for x
  proof -
    have 1: "0 \<le> bitlen x - 1" using that bitlen_eq_zero_iff[of x] bitlen_nonneg[of x] by simp
    have "rat_of_int x < of_int (2 ^ nat (bitlen x))"
      "rat_of_int (2 ^ nat (bitlen x - 1)) \<le> of_int x"
      using bitlen_bounds[OF that] by (simp_all only: of_int_less_iff of_int_le_iff)
    then show ?thesis using 1 pow2_of_nat[of "bitlen x"] pow2_of_nat[of "bitlen x - 1"] by simp
  qed
  have dp: "0 < rat_of_int d" using d by simp
  have up: "a < pow2 (?k + 1)"
  proof -
    have "of_int n < pow2 (bitlen n)" using pb[OF n] by simp
    also have "pow2 (bitlen n) = pow2 (?k + 1) * pow2 (bitlen d - 1)"
      by (simp add: pow2_add[symmetric])
    also have "\<dots> \<le> pow2 (?k + 1) * of_int d"
      using pb[OF d] pow2_pos[of "?k + 1"] by (simp add: mult_left_mono)
    finally show ?thesis using dp by (simp add: a pos_divide_less_eq)
  qed
  have lo: "pow2 (?k - 1) < a"
  proof -
    have "pow2 (?k - 1) * of_int d < pow2 (?k - 1) * pow2 (bitlen d)"
      using pb[OF d] pow2_pos[of "?k - 1"] by (simp add: mult_strict_left_mono)
    also have "\<dots> = pow2 (bitlen n - 1)" by (simp add: pow2_add[symmetric])
    also have "\<dots> \<le> of_int n" using pb[OF n] by simp
    finally show ?thesis using dp by (simp add: a pos_less_divide_eq)
  qed
  show ?thesis
  proof (cases "pow2 ?k \<le> a")
    case True
    then have "floorLog2 a = ?k" by (simp add: floorLog2_def q)
    then show ?thesis using True up by simp
  next
    case False
    then have "floorLog2 a = ?k - 1" by (simp add: floorLog2_def q)
    then show ?thesis using False lo by simp
  qed
qed

lemma floorLog2_ge:
  assumes "pow2 k \<le> a"
  shows "k \<le> floorLog2 a"
proof -
  have "0 < a" using assms pow2_pos[of k] by simp
  then have "a < pow2 (floorLog2 a + 1)" using floorLog2_bounds by simp
  then have "pow2 k < pow2 (floorLog2 a + 1)" using assms by simp
  then show ?thesis by (simp add: pow2_less_iff)
qed

lemma isDouble_bound:
  assumes "pow2 1024 \<le> \<bar>q\<bar>"
  shows "\<not> isDouble q"
proof -
  have "q \<noteq> 0" using assms pow2_pos[of 1024] by auto
  moreover have "1024 \<le> floorLog2 \<bar>q\<bar>" using assms by (rule floorLog2_ge)
  ultimately show ?thesis by (simp add: isDouble_def)
qed

lemma roundHalfEven_ge: "\<lfloor>x\<rfloor> \<le> roundHalfEven x"
  by (simp add: roundHalfEven_def Let_def)

lemma nearest_big:
  assumes "pow2 1024 \<le> \<bar>q\<bar>"
  shows "pow2 1024 \<le> \<bar>nearest q\<bar>"
proof -
  let ?a = "\<bar>q\<bar>"
  let ?f = "floorLog2 ?a"
  let ?u = "ulpExponent ?a"
  let ?x = "?a / pow2 ?u"
  have pos: "0 < ?a" using assms pow2_pos[of 1024] by simp
  have f: "1024 \<le> ?f" using assms by (rule floorLog2_ge)
  then have u: "?u = ?f - 52" by (simp add: ulpExponent_def)
  have "pow2 52 * pow2 ?u = pow2 ?f" by (simp add: u pow2_add[symmetric])
  also have "\<dots> \<le> ?a" using floorLog2_bounds[OF pos] by simp
  finally have "pow2 52 \<le> ?x" using pow2_pos[of ?u] by (simp add: pos_le_divide_eq)
  moreover have "pow2 52 = of_int (2 ^ 52)" by (simp add: pow2_def)
  ultimately have "of_int (2 ^ 52) \<le> ?x" by simp
  then have "2 ^ 52 \<le> \<lfloor>?x\<rfloor>" by (simp only: le_floor_iff)
  then have r: "2 ^ 52 \<le> roundHalfEven ?x" by (rule order_trans[OF _ roundHalfEven_ge])
  then have "rat_of_int (2 ^ 52) \<le> of_int (roundHalfEven ?x)" by (simp only: of_int_le_iff)
  then have r': "pow2 52 \<le> of_int (roundHalfEven ?x)" by (simp add: pow2_def)
  have "\<bar>nearest q\<bar> = of_int (roundHalfEven ?x) * pow2 ?u"
    using pos r pow2_pos[of ?u] by (simp add: nearest_def abs_mult abs_sgn_eq)
  moreover have "pow2 52 * pow2 ?u \<le> of_int (roundHalfEven ?x) * pow2 ?u"
    using r' pow2_pos[of ?u] by (simp add: mult_right_mono)
  moreover have "pow2 1024 \<le> pow2 ?f" using f by (rule pow2_mono)
  ultimately show ?thesis using \<open>pow2 52 * pow2 ?u = pow2 ?f\<close> by simp
qed

lemma toDouble_overflow: "pow2 1024 \<le> \<bar>q\<bar> \<Longrightarrow> toDouble q = None"
  using isDouble_bound[of q] isDouble_bound[OF nearest_big[of q]] by (simp add: toDouble_def)

lemma reserialise_overflow: "pow2 1024 \<le> \<bar>q\<bar> \<Longrightarrow> reserialise (JNum q) = JNull"
  by (simp add: toDouble_overflow)

text \<open>Re-serialisation: it is idempotent, keeps the keys, and commutes with the edits of an object.\<close>

lemma toDouble_idem: "toDouble q = Some r \<Longrightarrow> toDouble r = Some r"
  by (auto simp: toDouble_def split: if_splits)

lemma toDouble_zero: "toDouble 0 = Some 0"
  by (simp add: toDouble_def isDouble_def)

lemma reserialise_idem: "reserialise (reserialise v) = reserialise v"
  by (induction v rule: reserialise.induct) (auto simp: toDouble_idem split: option.splits)

lemma reserialiseObj_idem: "reserialiseObj (reserialiseObj ob) = reserialiseObj ob"
  by (induction ob) (auto simp: reserialiseObj_def reserialise_idem)

lemma reserialiseSettings_idem:
  "reserialiseSettings (reserialiseSettings s) = reserialiseSettings s"
  by (cases "hooks s") (simp_all add: reserialiseSettings_def reserialiseObj_idem)

lemma truthy_reserialise: "truthy (reserialise v) \<Longrightarrow> truthy v"
proof (cases v)
  case (JNum q)
  assume t: "truthy (reserialise v)"
  show ?thesis
  proof (cases "toDouble q")
    case None
    then show ?thesis using t JNum by simp
  next
    case (Some r)
    then have "toDouble r = Some r" by (rule toDouble_idem)
    then show ?thesis using t JNum Some by auto
  qed
qed auto

lemma reserialiseObj_Nil [simp]: "reserialiseObj [] = []"
  by (simp add: reserialiseObj_def)

lemma reserialiseObj_Cons [simp]:
  "reserialiseObj ((k, v) # ob) = (k, reserialise v) # reserialiseObj ob"
  by (simp add: reserialiseObj_def)

lemma reserialiseObj_empty_iff [simp]: "(reserialiseObj ob = []) = (ob = [])"
  by (simp add: reserialiseObj_def)

lemma length_reserialiseObj [simp]: "length (reserialiseObj ob) = length ob"
  by (simp add: reserialiseObj_def)

lemma keys_reserialiseObj [simp]: "map fst (reserialiseObj ob) = map fst ob"
  by (induction ob) auto

lemma map_of_reserialiseObj:
  "map_of (reserialiseObj ob) k = map_option reserialise (map_of ob k)"
  by (induction ob) auto

lemma reserialiseObj_update:
  "reserialiseObj (AList.update k v ob) = AList.update k (reserialise v) (reserialiseObj ob)"
  by (induction ob) auto

lemma reserialiseObj_delete:
  "reserialiseObj (AList.delete k ob) = AList.delete k (reserialiseObj ob)"
  by (induction ob) auto

lemma reserialiseObj_setProp:
  "reserialiseObj (setProp ob k v) = setProp (reserialiseObj ob) k (reserialise v)"
  by (auto simp: setProp_def reserialiseObj_update map_of_reserialiseObj)

lemma reserialiseObj_setInherited:
  "reserialiseObj (setInherited ob k) = setInherited (reserialiseObj ob) k"
  by (auto simp: setInherited_def reserialiseObj_update reserialiseObj_delete
      map_of_reserialiseObj)

lemma reserialiseObj_objectAssign:
  "reserialiseObj (objectAssign ob b) = objectAssign (reserialiseObj ob) (reserialiseObj b)"
  by (induction ob b rule: objectAssign.induct) (simp_all add: reserialiseObj_setProp)

lemma reserialise_hookEntry [simp]: "reserialise (hookEntry c) = hookEntry c"
  by (simp add: hookEntry_def)

lemma reserialise_buildHooks [simp]: "map reserialise (buildHooks e c n) = buildHooks e c n"
  by (simp add: buildHooks_def split: option.splits)

lemma reserialise_hookGroups [simp]:
  "reserialise (hookGroups (buildHooks e c n)) = hookGroups (buildHooks e c n)"
  by (simp add: hookGroups_def)

lemma hooks_reserialiseSettings [simp]:
  "hooks (reserialiseSettings s) = map_option reserialiseObj (hooks s)"
  by (simp add: reserialiseSettings_def)

lemma others_reserialiseSettings [simp]:
  "others (reserialiseSettings s) = reserialiseObj (others s)"
  by (simp add: reserialiseSettings_def)

lemma hooksOrEmpty_reserialiseSettings [simp]:
  "hooksOrEmpty (reserialiseSettings s) = reserialiseObj (hooksOrEmpty s)"
  by (cases "hooks s") (simp_all add: hooksOrEmpty_def)

lemma ownTruthy_reserialiseObj: "ownTruthy (reserialiseObj h) k \<Longrightarrow> ownTruthy h k"
  by (auto simp: ownTruthy_def map_of_reserialiseObj truthy_reserialise split: option.splits)

lemma configuredEvents_reserialise:
  "set (configuredEvents (reserialiseSettings s)) \<subseteq> set (configuredEvents s)"
proof (cases "hooks s")
  case None
  then show ?thesis by (simp add: configuredEvents_def)
next
  case (Some h)
  then have "hooks (reserialiseSettings s) = Some (reserialiseObj h)" by simp
  then show ?thesis
    using ownTruthy_reserialiseObj[of h]
    by (auto simp: set_configuredEvents[OF Some] set_configuredEvents)
qed

text \<open>The writes and the unlink.\<close>

lemma reported_simps [simp]:
  "reported m (Inl err, d) = (Inl err, d)" "reported m (Inr u, d) = (Inr m, d)"
  by (simp_all add: reported_def)

lemma snd_reported [simp]: "snd (reported m r) = snd r"
  by (cases r) (auto simp: reported_def split: sum.splits)

lemma fst_reported_Inr: "(fst (reported m r) = Inr m') = (m' = m \<and> (\<exists>u. fst r = Inr u))"
  by (cases r) (auto simp: reported_def split: sum.splits)

lemma fst_reported_Inl: "(fst (reported m r) = Inl err) = (fst r = Inl err)"
  by (cases r) (auto simp: reported_def split: sum.splits)

lemma writeSettings_frame [simp]:
  "backupFile (snd (writeSettings s d)) = backupFile d"
  "settingsWrite (snd (writeSettings s d)) = settingsWrite d"
  "backupWrite (snd (writeSettings s d)) = backupWrite d"
  "backupUnlink (snd (writeSettings s d)) = backupUnlink d"
  by (simp_all add: writeSettings_def split: writeMode.splits)

lemma writeBackup_frame [simp]:
  "settingsFile (snd (writeBackup b d)) = settingsFile d"
  "settingsWrite (snd (writeBackup b d)) = settingsWrite d"
  "backupWrite (snd (writeBackup b d)) = backupWrite d"
  "backupUnlink (snd (writeBackup b d)) = backupUnlink d"
  by (simp_all add: writeBackup_def split: writeMode.splits)

lemma unlinkBackup_frame [simp]:
  "settingsFile (unlinkBackup d) = settingsFile d"
  "settingsWrite (unlinkBackup d) = settingsWrite d"
  "backupWrite (unlinkBackup d) = backupWrite d"
  "backupUnlink (unlinkBackup d) = backupUnlink d"
  by (simp_all add: unlinkBackup_def)

lemma writeSettings_Inr:
  "(fst (writeSettings s d) = Inr u) = (settingsWrite d = Succeeds)"
  by (simp add: writeSettings_def split: writeMode.splits)

lemma writeSettings_Succeeds:
  "settingsWrite d = Succeeds \<Longrightarrow>
   writeSettings s d = (Inr (), d\<lparr>settingsFile := Holds (reserialiseSettings s)\<rparr>)"
  by (simp add: writeSettings_def)

lemma writeSettings_Inl:
  "fst (writeSettings s d) = Inl err \<Longrightarrow>
   err = IoError
   \<and> (snd (writeSettings s d) = d
      \<or> (settingsWrite d = Truncates \<and> snd (writeSettings s d) = d\<lparr>settingsFile := Unreadable\<rparr>))"
  by (auto simp: writeSettings_def split: writeMode.splits)

lemma writeBackup_Inr:
  "(fst (writeBackup b d) = Inr u) = (backupWrite d = Succeeds)"
  by (simp add: writeBackup_def split: writeMode.splits)

lemma writeBackup_Succeeds:
  "backupWrite d = Succeeds \<Longrightarrow>
   writeBackup b d = (Inr (), d\<lparr>backupFile := Holds (reserialiseObj b)\<rparr>)"
  by (simp add: writeBackup_def)

lemma writeBackup_Inl:
  "fst (writeBackup b d) = Inl err \<Longrightarrow>
   err = IoError
   \<and> (snd (writeBackup b d) = d
      \<or> (backupWrite d = Truncates \<and> snd (writeBackup b d) = d\<lparr>backupFile := Unreadable\<rparr>))"
  by (auto simp: writeBackup_def split: writeMode.splits)

text \<open>The operations, step by step.\<close>

lemma backupCurrentConfig_cases:
  "backupCurrentConfig d =
     (case settingsFile d of
        Unreadable \<Rightarrow> (Inl SettingsUnreadable, d)
      | Missing \<Rightarrow> (Inr False, d)
      | Holds s \<Rightarrow>
          (case hooks s of
             None \<Rightarrow> (Inr False, d)
           | Some h \<Rightarrow>
               if configuredEvents s = [] then (Inr False, d)
               else reported True (writeBackup (snapshot h) d)))"
proof (cases "settingsFile d")
  case Missing
  then show ?thesis by (simp add: backupCurrentConfig_def readSettings_def)
next
  case Unreadable
  then show ?thesis by (simp add: backupCurrentConfig_def readSettings_def)
next
  case (Holds s)
  show ?thesis
  proof (cases "hooks s")
    case None
    then show ?thesis using Holds by (simp add: backupCurrentConfig_def readSettings_def)
  next
    case (Some h)
    then show ?thesis using Holds snapshot_empty_iff[OF Some]
      by (simp add: backupCurrentConfig_def readSettings_def snapshot_def Let_def)
  qed
qed

lemma backup_frame [simp]:
  "settingsFile (snd (backupCurrentConfig d)) = settingsFile d"
  "settingsWrite (snd (backupCurrentConfig d)) = settingsWrite d"
  "backupWrite (snd (backupCurrentConfig d)) = backupWrite d"
  "backupUnlink (snd (backupCurrentConfig d)) = backupUnlink d"
  by (simp_all add: backupCurrentConfig_cases split: stored.splits option.splits)

lemma readSettings_backup [simp]: "readSettings (snd (backupCurrentConfig d)) = readSettings d"
  by (simp add: readSettings_def)

lemma readSettings_unlink [simp]: "readSettings (unlinkBackup d) = readSettings d"
  by (simp add: readSettings_def)

lemma backup_Inr_read: "fst (backupCurrentConfig d) = Inr b \<Longrightarrow> \<exists>s. readSettings d = Inr s"
  by (auto simp: backupCurrentConfig_def split: sum.splits)

lemma backup_backupFile:
  "backupFile (snd (backupCurrentConfig d)) = backupFile d
   \<or> (\<exists>s h. settingsFile d = Holds s \<and> hooks s = Some h \<and> configuredEvents s \<noteq> []
         \<and> backupWrite d = Succeeds
         \<and> backupFile (snd (backupCurrentConfig d)) = Holds (reserialiseObj (snapshot h)))
   \<or> (backupWrite d = Truncates \<and> fst (backupCurrentConfig d) = Inl IoError
         \<and> backupFile (snd (backupCurrentConfig d)) = Unreadable)"
  by (auto simp: backupCurrentConfig_cases writeBackup_def
      split: stored.splits option.splits writeMode.splits)


lemma backup_Inl:
  "fst (backupCurrentConfig d) = Inl err \<Longrightarrow>
   (err = SettingsUnreadable \<and> readSettings d = Inl err \<and> snd (backupCurrentConfig d) = d)
   \<or> (err = IoError \<and> (\<exists>s. readSettings d = Inr s)
        \<and> (snd (backupCurrentConfig d) = d
           \<or> (backupWrite d = Truncates
               \<and> snd (backupCurrentConfig d) = d\<lparr>backupFile := Unreadable\<rparr>)))"
  by (auto simp: backupCurrentConfig_cases writeBackup_def readSettings_def
      split: stored.splits option.splits writeMode.splits if_splits)

lemma enable_cases:
  "enableNotifications event d =
     (case backupFile d of
        Holds backup \<Rightarrow>
          (case readSettings d of
             Inl err \<Rightarrow> (Inl err, d)
           | Inr s \<Rightarrow>
               (case eventArg event of
                  Some ev \<Rightarrow>
                    (case getProp backup ev of
                       Own v \<Rightarrow>
                         if truthy v
                         then reported (EventEnabled ev)
                                (writeSettings
                                   (s\<lparr>hooks := Some (setProp (hooksOrEmpty s) ev v)\<rparr>) d)
                         else (Inr (NoBackupFor ev), d)
                     | Inherited \<Rightarrow>
                         reported (EventEnabled ev)
                           (writeSettings
                              (s\<lparr>hooks := Some (setInherited (hooksOrEmpty s) ev)\<rparr>) d)
                     | Undefined \<Rightarrow> (Inr (NoBackupFor ev), d))
                | None \<Rightarrow>
                    reported (AllEnabled (length backup))
                      (writeSettings
                         (s\<lparr>hooks := Some (objectAssign (hooksOrEmpty s) backup)\<rparr>) d)))
      | Missing \<Rightarrow> (Inr NoPreviousConfiguration, d)
      | Unreadable \<Rightarrow> (Inr NoPreviousConfiguration, d))"
  by (simp add: enableNotifications_def getBackupConfig_def split: stored.splits)

lemma disable_cases:
  "disableNotifications event d =
     (case readSettings d of
        Inl err \<Rightarrow> (Inl err, d)
      | Inr s \<Rightarrow>
          if configuredEvents s = [] then (Inr NothingConfigured, d)
          else (case fst (backupCurrentConfig d) of
                  Inl err \<Rightarrow> (Inl err, snd (backupCurrentConfig d))
                | Inr b \<Rightarrow>
                    (case eventArg event of
                       None \<Rightarrow>
                         reported (AllDisabled (length (configuredEvents s)))
                           (writeSettings
                              (cleanUp s (deleteAll (hooksOrEmpty s) (configuredEvents s)))
                              (snd (backupCurrentConfig d)))
                     | Some ev \<Rightarrow>
                         if truthyVal (getProp (hooksOrEmpty s) ev)
                         then reported (EventDisabled ev)
                                (writeSettings (cleanUp s (deleteProp (hooksOrEmpty s) ev))
                                   (snd (backupCurrentConfig d)))
                         else (Inr (NotConfiguredFor ev), snd (backupCurrentConfig d)))))"
proof (cases "readSettings d")
  case (Inl err)
  then show ?thesis by (simp add: disableNotifications_def)
next
  case (Inr s)
  show ?thesis
  proof (cases "configuredEvents s = []")
    case True
    then show ?thesis using Inr by (simp add: disableNotifications_def)
  next
    case False
    then obtain h where h: "hooks s = Some h"
      using configuredEvents_no_hooks[of s] by (cases "hooks s") auto
    obtain r d1 where bc: "backupCurrentConfig d = (r, d1)" by force
    show ?thesis
      using Inr False h bc
      by (cases r) (auto simp: disableNotifications_def hooksOrEmpty_def split: option.splits)
  qed
qed

lemma remove_cases:
  "removeNotification event d =
     (case readSettings d of
        Inl err \<Rightarrow> (Inl err, d)
      | Inr s \<Rightarrow>
          if hooks s \<noteq> None \<and> truthyVal (getProp (hooksOrEmpty s) event)
          then reported (Removed event)
                 (writeSettings (cleanUp s (deleteProp (hooksOrEmpty s) event)) (unlinkBackup d))
          else (Inr (NotConfiguredFor event), d))"
  by (auto simp: removeNotification_def hooksOrEmpty_def split: sum.splits option.splits)

lemma setup_cases:
  "setupNotification e event soundPath n d =
     (case getPlatformConfig e of
        Inl err \<Rightarrow> (Inl err, d)
      | Inr config \<Rightarrow>
          (case fst (backupCurrentConfig d) of
             Inl err \<Rightarrow> (Inl err, snd (backupCurrentConfig d))
           | Inr b \<Rightarrow>
               (case resolveSoundPath e config soundPath of
                  Inl err \<Rightarrow> (Inl err, snd (backupCurrentConfig d))
                | Inr sp \<Rightarrow>
                    (case readSettings d of
                       Inl err \<Rightarrow> (Inl err, snd (backupCurrentConfig d))
                     | Inr s \<Rightarrow>
                         (case buildSoundCommand e sp of
                            Inl err \<Rightarrow> (Inl err, snd (backupCurrentConfig d))
                          | Inr soundCommand \<Rightarrow>
                              reported (Configured event sp n)
                                (writeSettings
                                   (s\<lparr>hooks := Some (setProp (hooksOrEmpty s) event
                                       (hookGroups (buildHooks e soundCommand n)))\<rparr>)
                                   (snd (backupCurrentConfig d))))))))"
proof -
  obtain r d1 where bc: "backupCurrentConfig d = (r, d1)" by force
  then have d1: "snd (backupCurrentConfig d) = d1" and r: "fst (backupCurrentConfig d) = r"
    by simp_all
  have rs: "readSettings d1 = readSettings d" using d1 readSettings_backup[of d] by simp
  show ?thesis
    unfolding d1 r using bc rs
    by (simp add: setupNotification_def Let_def split: sum.splits)
qed

lemma getPlatformConfig_build:
  "getPlatformConfig e = Inr config \<Longrightarrow> buildSoundCommand e sp \<noteq> Inl err"
  by (simp add: buildSoundCommand_def)

lemma resolve_error: "resolveSoundPath e config p = Inl err \<Longrightarrow> \<exists>sp. err = SoundNotFound sp"
  by (auto simp: resolveSoundPath_def Let_def split: option.splits if_splits sum.splits)

lemma configured_iff:
  "(configuredEvents s \<noteq> []) =
     (\<exists>h e. hooks s = Some h \<and> e \<in> set eventNames \<and> ownTruthy h e)"
proof (cases "hooks s")
  case None
  then show ?thesis by (simp add: configuredEvents_no_hooks)
next
  case (Some h)
  have "(configuredEvents s \<noteq> []) = (set (configuredEvents s) \<noteq> {})" by simp
  also have "\<dots> = (\<exists>e. e \<in> set eventNames \<and> ownTruthy h e)"
    unfolding set_configuredEvents[OF Some] by auto
  finally show ?thesis using Some by simp
qed

lemma getStatus_cases:
  assumes "readSettings d = Inr s"
  shows "getStatus d =
     (if configuredEvents s \<noteq> []
      then (StatusEnabled (length (configuredEvents s))
              # fst (reportEvents (hooksOrEmpty s) (configuredEvents s)),
            snd (reportEvents (hooksOrEmpty s) (configuredEvents s)))
      else (case backupFile d of
              Holds b \<Rightarrow> ([StatusDisabled (length b), EventsLine (map fst b)], None)
            | Missing \<Rightarrow> ([StatusNotConfigured], None)
            | Unreadable \<Rightarrow> ([StatusNotConfigured], None)))"
  using assms
  by (auto simp: getStatus_def getBackupConfig_def split: prod.splits stored.splits)

lemma configuredEvents_after_disable:
  assumes "hooks s = Some h"
  shows "configuredEvents
           (reserialiseSettings (cleanUp s (deleteAll h (configuredEvents s)))) = []"
proof -
  have "\<not> ownTruthy (deleteAll h (configuredEvents s)) e" if "e \<in> set eventNames" for e
    using that by (auto simp: ownTruthy_def map_of_deleteAll set_configuredEvents[OF assms])
  then have "configuredEvents (cleanUp s (deleteAll h (configuredEvents s))) = []"
    by (auto simp: configuredEvents_def cleanUp_def filter_empty_conv truthyVal_managed)
  then show ?thesis
    using configuredEvents_reserialise[of "cleanUp s (deleteAll h (configuredEvents s))"]
    by simp
qed

lemma enable_twice:
  "snd (enableNotifications event (snd (enableNotifications event d)))
     = snd (enableNotifications event d)"
proof (cases "backupFile d")
  case (Holds b)
  show ?thesis
  proof (cases "readSettings d")
    case (Inl err)
    then show ?thesis using Holds by (simp add: enable_cases)
  next
    case (Inr s)
    show ?thesis
    proof (cases "settingsWrite d")
      case Succeeds
      have rs: "readSettings (d\<lparr>settingsFile := Holds s'\<rparr>) = Inr s'" for s'
        by (simp add: readSettings_def)
      have k1: "reserialiseObj (objectAssign (reserialiseObj (objectAssign h b)) b)
                  = reserialiseObj (objectAssign h b)" for h
        by (simp add: reserialiseObj_objectAssign reserialiseObj_idem objectAssign_idem)
      have k2: "reserialiseObj (setProp (reserialiseObj (setProp h k v)) k v)
                  = reserialiseObj (setProp h k v)" for h k v
        by (simp add: reserialiseObj_setProp reserialiseObj_idem reserialise_idem setProp_idem)
      have k3: "reserialiseObj (setInherited (reserialiseObj (setInherited h k)) k)
                  = reserialiseObj (setInherited h k)" for h k
        by (simp add: reserialiseObj_setInherited reserialiseObj_idem setInherited_idem)
      show ?thesis
        using Holds Inr Succeeds
        by (auto simp: enable_cases writeSettings_Succeeds rs reserialiseSettings_def
            reserialiseObj_idem k1 k2 k3 hooksOrEmpty_def
            split: option.splits jsval.splits)
    next
      case Refused
      then show ?thesis using Holds Inr
        by (auto simp: enable_cases writeSettings_def split: option.splits jsval.splits)
    next
      case Truncates
      then show ?thesis using Holds Inr
        by (auto simp: enable_cases writeSettings_def readSettings_def
            split: option.splits jsval.splits)
    qed
  qed
qed (simp_all add: enable_cases)

lemma disable_twice:
  "snd (disableNotifications None (snd (disableNotifications None d)))
     = snd (disableNotifications None d)"
proof (cases "settingsFile d")
  case Missing
  then show ?thesis by (simp add: disable_cases readSettings_def configuredEvents_def)
next
  case Unreadable
  then show ?thesis by (simp add: disable_cases readSettings_def)
next
  case (Holds s)
  show ?thesis
  proof (cases "hooks s")
    case None
    then show ?thesis using Holds
      by (simp add: disable_cases readSettings_def configuredEvents_def)
  next
    case (Some h)
    show ?thesis
    proof (cases "configuredEvents s = []")
      case True
      then show ?thesis using Holds by (simp add: disable_cases readSettings_def)
    next
      case False
      have upd: "d\<lparr>backupFile := x\<rparr>\<lparr>backupFile := x\<rparr> = d\<lparr>backupFile := x\<rparr>" for x
        by simp
      show ?thesis
        using Holds Some False configuredEvents_after_disable[OF Some]
        by (cases "backupWrite d"; cases "settingsWrite d")
           (simp_all add: disable_cases backupCurrentConfig_cases readSettings_def
              writeBackup_def writeSettings_def eventArg_def hooksOrEmpty_def)
    qed
  qed
qed

text \<open>What the settings file gives for a key, across the steps of an operation.\<close>

lemma hooksAt_backup [simp]: "hooksAt (snd (backupCurrentConfig d)) k = hooksAt d k"
  by (simp add: hooksAt_def)

lemma othersOf_backup [simp]: "othersOf (snd (backupCurrentConfig d)) = othersOf d"
  by (simp add: othersOf_def)

lemma hooksAt_unlink [simp]: "hooksAt (unlinkBackup d) k = hooksAt d k"
  by (simp add: hooksAt_def)

lemma othersOf_unlink [simp]: "othersOf (unlinkBackup d) = othersOf d"
  by (simp add: othersOf_def)

lemma readSettings_hooksAt: "readSettings d = Inr s \<Longrightarrow> hooksAt d k = map_of (hooksOrEmpty s) k"
  by (auto simp: readSettings_def hooksAt_def hooksOrEmpty_def split: stored.splits)

lemma readSettings_othersOf: "readSettings d = Inr s \<Longrightarrow> othersOf d = others s"
  by (auto simp: readSettings_def othersOf_def split: stored.splits)

lemma hooksAt_Holds: "settingsFile d = Holds s \<Longrightarrow> hooksAt d k = map_of (hooksOrEmpty s) k"
  by (simp add: hooksAt_def)

lemma othersOf_Holds: "settingsFile d = Holds s \<Longrightarrow> othersOf d = others s"
  by (simp add: othersOf_def)

lemma hooksOrEmpty_update [simp]: "hooksOrEmpty (s\<lparr>hooks := Some h\<rparr>) = h"
  by (simp add: hooksOrEmpty_def)

text \<open>A call of \<^verbatim>\<open>setupNotification\<close> that returns normally.\<close>

lemma setup_success:
  assumes "setupNotification e event p n d = (Inr m, d')"
  shows "\<exists>config sp c s b.
           getPlatformConfig e = Inr config
         \<and> resolveSoundPath e config p = Inr sp
         \<and> buildSoundCommand e sp = Inr c
         \<and> readSettings d = Inr s
         \<and> fst (backupCurrentConfig d) = Inr b
         \<and> settingsWrite d = Succeeds
         \<and> m = Configured event sp n
         \<and> d' = (snd (backupCurrentConfig d))
                  \<lparr>settingsFile := Holds (reserialiseSettings
                     (s\<lparr>hooks := Some (setProp (hooksOrEmpty s) event
                                         (hookGroups (buildHooks e c n)))\<rparr>))\<rparr>"
proof -
  from assms have f: "fst (setupNotification e event p n d) = Inr m"
    and sd: "snd (setupNotification e event p n d) = d'" by simp_all
  from f obtain config where 1: "getPlatformConfig e = Inr config"
    by (cases "getPlatformConfig e") (simp_all add: setup_cases)
  from f 1 obtain b where 2: "fst (backupCurrentConfig d) = Inr b"
    by (cases "fst (backupCurrentConfig d)") (simp_all add: setup_cases)
  from f 1 2 obtain sp where 3: "resolveSoundPath e config p = Inr sp"
    by (cases "resolveSoundPath e config p") (simp_all add: setup_cases)
  from f 1 2 3 obtain s where 4: "readSettings d = Inr s"
    by (cases "readSettings d") (simp_all add: setup_cases)
  from f 1 2 3 4 obtain c where 5: "buildSoundCommand e sp = Inr c"
    by (cases "buildSoundCommand e sp") (simp_all add: setup_cases)
  from f 1 2 3 4 5 have 6: "settingsWrite d = Succeeds" and 7: "m = Configured event sp n"
    by (simp_all add: setup_cases fst_reported_Inr writeSettings_Inr)
  from sd 1 2 3 4 5 6 have
    "d' = (snd (backupCurrentConfig d))
            \<lparr>settingsFile := Holds (reserialiseSettings
               (s\<lparr>hooks := Some (setProp (hooksOrEmpty s) event
                                   (hookGroups (buildHooks e c n)))\<rparr>))\<rparr>"
    by (simp add: setup_cases writeSettings_Succeeds)
  with 1 2 3 4 5 6 7 show ?thesis by blast
qed


lemma backup_attempt_Succeeds:
  assumes "fst (backupCurrentConfig d) = Inr b" and "settingsFile d = Holds s"
    and "configuredEvents s \<noteq> []"
  shows "backupWrite d = Succeeds"
proof -
  obtain h where h: "hooks s = Some h"
    using assms(3) configuredEvents_no_hooks[of s] by (cases "hooks s") auto
  show ?thesis
    using assms h by (simp add: backupCurrentConfig_cases fst_reported_Inr writeBackup_Inr)
qed



text \<open>Substrings, the sound pattern, and the status lines of an entry built by setup.\<close>

lemma includesStr_iff: "includesStr s m = (\<exists>u v. s = u @ m @ v)"
proof (induction s)
  case Nil
  then show ?case by auto
next
  case (Cons c cs)
  show ?case
  proof
    assume "includesStr (c # cs) m"
    then consider "prefix m (c # cs)" | "includesStr cs m" by auto
    then show "\<exists>u v. c # cs = u @ m @ v"
    proof cases
      case 1
      then obtain v where "c # cs = m @ v" by (auto simp: prefix_def)
      then have "c # cs = [] @ m @ v" by simp
      then show ?thesis by blast
    next
      case 2
      then obtain u v where "cs = u @ m @ v" using Cons.IH by auto
      then have "c # cs = (c # u) @ m @ v" by simp
      then show ?thesis by blast
    qed
  next
    assume "\<exists>u v. c # cs = u @ m @ v"
    then obtain u v where uv: "c # cs = u @ m @ v" by auto
    show "includesStr (c # cs) m"
    proof (cases u)
      case Nil
      then have "prefix m (c # cs)" using uv by (metis append_Nil prefixI)
      then show ?thesis by simp
    next
      case (Cons a u')
      then have "cs = u' @ m @ v" using uv by simp
      then show ?thesis using Cons.IH by auto
    qed
  qed
qed

lemma includesStr_sep:
  assumes "includesStr (a @ sep # b) m" and "sep \<notin> set m"
  shows "includesStr a m \<or> includesStr b m"
proof -
  from assms(1) obtain u v where uv: "a @ sep # b = u @ m @ v"
    by (auto simp: includesStr_iff)
  then consider w where "a = u @ w" "w @ sep # b = m @ v"
    | w where "a @ w = u" "sep # b = w @ m @ v"
    by (auto simp: append_eq_append_conv2)
  then show ?thesis
  proof cases
    case 1
    from 1(2) consider w' where "w = m @ w'" | w' where "w @ w' = m" "sep # b = w' @ v"
      by (auto simp: append_eq_append_conv2)
    then show ?thesis
    proof cases
      case 1
      then have "a = u @ m @ w'" using \<open>a = u @ w\<close> by simp
      then show ?thesis by (auto simp: includesStr_iff)
    next
      case 2
      show ?thesis
      proof (cases w')
        case Nil
        then have "a = u @ m @ []" using 2 \<open>a = u @ w\<close> by simp
        then show ?thesis unfolding includesStr_iff by blast
      next
        case (Cons x xs)
        then have "sep \<in> set m" using 2 by auto
        then show ?thesis using assms(2) by simp
      qed
    qed
  next
    case 2
    show ?thesis
    proof (cases w)
      case Nil
      then have mv: "sep # b = m @ v" using 2 by simp
      show ?thesis
      proof (cases m)
        case Nil
        then have "b = [] @ m @ b" by simp
        then show ?thesis unfolding includesStr_iff by blast
      next
        case (Cons x xs)
        then have "sep \<in> set m" using mv by auto
        then show ?thesis using assms(2) by simp
      qed
    next
      case (Cons x xs)
      then have "b = xs @ m @ v" using 2 by simp
      then show ?thesis unfolding includesStr_iff by blast
    qed
  qed
qed

lemma matchSound_skip: "CHR ''/'' \<notin> set pre \<Longrightarrow> matchSound (pre @ t) = matchSound t"
  by (induction pre) auto

lemma greedyRun_stem:
  "stem \<noteq> [] \<Longrightarrow> \<forall>c\<in>set stem. \<not> isSpace c \<Longrightarrow> greedyRun t = None \<Longrightarrow>
   extensionAt t = Some x \<Longrightarrow> greedyRun (stem @ t) = Some (stem @ x)"
proof (induction stem)
  case Nil
  then show ?case by simp
next
  case (Cons c cs)
  show ?case
  proof (cases "cs = []")
    case True
    then show ?thesis using Cons.prems by simp
  next
    case False
    then show ?thesis using Cons by simp
  qed
qed

lemma extension_facts:
  "greedyRun ''.aiff'' = None \<and> greedyRun ''.wav'' = None
   \<and> greedyRun ''.mp3'' = None \<and> greedyRun ''.oga'' = None
   \<and> greedyRun (''.aiff'' @ [CHR 0x27] @ '').PlaySync()'') = None
   \<and> greedyRun (''.wav'' @ [CHR 0x27] @ '').PlaySync()'') = None
   \<and> greedyRun (''.mp3'' @ [CHR 0x27] @ '').PlaySync()'') = None
   \<and> greedyRun (''.oga'' @ [CHR 0x27] @ '').PlaySync()'') = None"
  by code_simp

lemma extensionAt_append:
  "x \<in> set [''.aiff'', ''.wav'', ''.mp3'', ''.oga''] \<Longrightarrow> extensionAt (x @ t) = Some x"
  by (auto simp: extensionAt_def)

lemma greedyRun_extension:
  "x \<in> set [''.aiff'', ''.wav'', ''.mp3'', ''.oga''] \<Longrightarrow>
   greedyRun (x @ []) = None \<and> greedyRun (x @ [CHR 0x27] @ '').PlaySync()'') = None"
  using extension_facts by auto

lemma matchSound_plain:
  assumes "stem \<noteq> []" and "\<forall>ch\<in>set stem. \<not> isSpace ch"
    and "x \<in> set [''.aiff'', ''.wav'', ''.mp3'', ''.oga'']"
    and "CHR ''/'' \<notin> set pre"
    and "suf = [] \<or> suf = [CHR 0x27] @ '').PlaySync()''"
  shows "matchSound (pre @ (CHR ''/'' # stem @ x) @ suf) = Some (CHR ''/'' # stem @ x)"
proof -
  have g0: "greedyRun (x @ suf) = None"
    using greedyRun_extension[OF assms(3)] assms(5) by auto
  have "greedyRun (stem @ (x @ suf)) = Some (stem @ x)"
    using greedyRun_stem[OF assms(1,2) g0 extensionAt_append[OF assms(3)]] .
  then have "matchSound (CHR ''/'' # stem @ x @ suf) = Some (CHR ''/'' # stem @ x)"
    by simp
  then show ?thesis
    using matchSound_skip[OF assms(4), of "(CHR ''/'' # stem @ x) @ suf"] by simp
qed

lemma platform_cases:
  assumes "getPlatformConfig e = Inr config"
  obtains "platform e = ''darwin''" "config = PLATFORM_darwin"
  | "platform e = ''linux''" "config = PLATFORM_linux"
  | "platform e = ''win32''" "config = PLATFORM_win32"
  using assms by (auto simp: getPlatformConfig_def split: if_splits)

lemma buildSoundCommand_shape:
  assumes "getPlatformConfig e = Inr config" and "buildSoundCommand e sp = Inr c"
  shows "(c = ''afplay'' @ CHR '' '' # sp \<and> platform e = ''darwin'')
       \<or> (c = ''paplay'' @ CHR '' '' # sp \<and> platform e = ''linux'')
       \<or> (c = ''powershell -c (New-Object Media.SoundPlayer '' @ CHR 0x27 # sp @ CHR 0x27 # '').PlaySync()''
            \<and> platform e = ''win32'')"
  using assms(1)
proof (cases rule: platform_cases)
  case 1
  then show ?thesis using assms by (simp add: buildSoundCommand_def PLATFORM_darwin_def)
next
  case 2
  then show ?thesis using assms by (simp add: buildSoundCommand_def PLATFORM_linux_def)
next
  case 3
  then show ?thesis using assms by (simp add: buildSoundCommand_def PLATFORM_win32_def)
qed

lemma matchSound_command:
  assumes "getPlatformConfig e = Inr config" and "buildSoundCommand e sp = Inr c"
    and "sp = CHR ''/'' # stem @ x" and "stem \<noteq> []" and "\<forall>ch\<in>set stem. \<not> isSpace ch"
    and "x \<in> set [''.aiff'', ''.wav'', ''.mp3'', ''.oga'']"
  shows "matchSound c = Some sp"
proof -
  note m = matchSound_plain[OF assms(4,5,6)]
  from buildSoundCommand_shape[OF assms(1,2)] show ?thesis
  proof (elim disjE conjE)
    assume "c = ''afplay'' @ CHR '' '' # sp"
    then have "c = ''afplay '' @ (CHR ''/'' # stem @ x) @ []" using assms(3) by simp
    then show ?thesis using m[of "''afplay ''" "[]"] assms(3) by simp
  next
    assume "c = ''paplay'' @ CHR '' '' # sp"
    then have "c = ''paplay '' @ (CHR ''/'' # stem @ x) @ []" using assms(3) by simp
    then show ?thesis using m[of "''paplay ''" "[]"] assms(3) by simp
  next
    assume "c = ''powershell -c (New-Object Media.SoundPlayer '' @ CHR 0x27 # sp @ CHR 0x27 # '').PlaySync()''"
    then have "c = (''powershell -c (New-Object Media.SoundPlayer '' @ [CHR 0x27])
                    @ (CHR ''/'' # stem @ x) @ ([CHR 0x27] @ '').PlaySync()'')"
      using assms(3) by simp
    then show ?thesis
      using m[of "''powershell -c (New-Object Media.SoundPlayer '' @ [CHR 0x27]"
              "[CHR 0x27] @ '').PlaySync()''"] assms(3)
      by simp
  qed
qed

lemma commandIncludes_hookEntry: "commandIncludes (hookEntry c) m = Inr (includesStr c m)"
  by (simp add: commandIncludes_def hookEntry_def)

lemma anyIncludes_hookEntry: "anyIncludes (hookEntry c) ms = Inr (list_ex (includesStr c) ms)"
  by (induction ms) (auto simp: commandIncludes_hookEntry)

lemma soundText_hookEntry:
  "soundText (hookEntry c) = Inr (case matchSound c of Some m \<Rightarrow> m | None \<Rightarrow> c)"
  by (simp add: soundText_def hookEntry_def)

lemma groupHooks_hookGroups: "groupHooks (hookGroups hs) = JArr hs"
  by (simp add: groupHooks_def hookGroups_def index0_def)

lemma includesStr_prefix: "includesStr (m @ v) m"
  unfolding includesStr_iff by (metis append_Nil)

lemma includesStr_mid: "includesStr (u @ m @ v) m"
  unfolding includesStr_iff by blast

lemma sound_marker_present:
  assumes "getPlatformConfig e = Inr config" and "buildSoundCommand e sp = Inr c"
  shows "list_ex (includesStr c) soundMarkers"
proof -
  from buildSoundCommand_shape[OF assms] show ?thesis
  proof (elim disjE conjE)
    assume "c = ''afplay'' @ CHR '' '' # sp"
    then show ?thesis using includesStr_prefix[of "''afplay''"] by (simp add: soundMarkers_def)
  next
    assume "c = ''paplay'' @ CHR '' '' # sp"
    then show ?thesis using includesStr_prefix[of "''paplay''"] by (simp add: soundMarkers_def)
  next
    assume "c = ''powershell -c (New-Object Media.SoundPlayer '' @ CHR 0x27 # sp @ CHR 0x27 # '').PlaySync()''"
    then have "c = ''powershell -c (New-Object '' @ ''Media.SoundPlayer''
                    @ ('' '' @ CHR 0x27 # sp @ CHR 0x27 # '').PlaySync()'')"
      by simp
    then show ?thesis
      using includesStr_mid[of "''powershell -c (New-Object ''" "''Media.SoundPlayer''"]
      by (simp add: soundMarkers_def)
  qed
qed

lemma fixed_parts_no_marker:
  "\<not> list_ex (includesStr ''afplay'') notifyMarkers
   \<and> \<not> list_ex (includesStr ''paplay'') notifyMarkers
   \<and> \<not> list_ex (includesStr ''powershell -c (New-Object Media.SoundPlayer '') notifyMarkers
   \<and> \<not> list_ex (includesStr '').PlaySync()'') notifyMarkers
   \<and> \<not> list_ex (\<lambda>m. CHR '' '' \<in> set m \<or> CHR 0x27 \<in> set m) notifyMarkers"
  by code_simp

lemma notify_marker_in_path:
  assumes "getPlatformConfig e = Inr config" and "buildSoundCommand e sp = Inr c"
    and "m \<in> set notifyMarkers" and "includesStr c m"
  shows "includesStr sp m"
proof -
  have sep: "CHR '' '' \<notin> set m" "CHR 0x27 \<notin> set m"
    using fixed_parts_no_marker assms(3) by (auto simp: list_ex_iff)
  have fx: "\<not> includesStr ''afplay'' m" "\<not> includesStr ''paplay'' m"
    "\<not> includesStr ''powershell -c (New-Object Media.SoundPlayer '' m"
    "\<not> includesStr '').PlaySync()'' m"
    using fixed_parts_no_marker assms(3) by (auto simp: list_ex_iff)
  from buildSoundCommand_shape[OF assms(1,2)] show ?thesis
  proof (elim disjE conjE)
    assume "c = ''afplay'' @ CHR '' '' # sp"
    then show ?thesis using includesStr_sep[of "''afplay''" "CHR '' ''" sp m] assms(4) sep fx by auto
  next
    assume "c = ''paplay'' @ CHR '' '' # sp"
    then show ?thesis using includesStr_sep[of "''paplay''" "CHR '' ''" sp m] assms(4) sep fx by auto
  next
    assume c: "c = ''powershell -c (New-Object Media.SoundPlayer '' @ CHR 0x27 # sp @ CHR 0x27 # '').PlaySync()''"
    have "includesStr (sp @ CHR 0x27 # '').PlaySync()'') m"
      using includesStr_sep[of "''powershell -c (New-Object Media.SoundPlayer ''" "CHR 0x27"
          "sp @ CHR 0x27 # '').PlaySync()''" m] assms(4) sep fx c by auto
    then show ?thesis
      using includesStr_sep[of sp "CHR 0x27" "'').PlaySync()''" m] sep fx by auto
  qed
qed

lemma notify_command_marker:
  assumes "getPlatformConfig e = Inr config"
  shows "\<exists>nc. buildDesktopNotifyCommand e = Some nc \<and> list_ex (includesStr nc) notifyMarkers"
  using assms
proof (cases rule: platform_cases)
  case 1
  have "list_ex (includesStr (the (buildDesktopNotifyCommand \<lparr>platform = ''darwin'', access = (\<lambda>f. True),
     isAbsolute = (\<lambda>f. True), pathJoin = (\<lambda>a b. a), pathResolve = (\<lambda>f. f)\<rparr>))) notifyMarkers"
    by code_simp
  then show ?thesis using 1 by (simp add: buildDesktopNotifyCommand_def)
next
  case 2
  have "list_ex (includesStr (the (buildDesktopNotifyCommand \<lparr>platform = ''linux'', access = (\<lambda>f. True),
     isAbsolute = (\<lambda>f. True), pathJoin = (\<lambda>a b. a), pathResolve = (\<lambda>f. f)\<rparr>))) notifyMarkers"
    by code_simp
  then show ?thesis using 2 by (simp add: buildDesktopNotifyCommand_def)
next
  case 3
  have "list_ex (includesStr (the (buildDesktopNotifyCommand \<lparr>platform = ''win32'', access = (\<lambda>f. True),
     isAbsolute = (\<lambda>f. True), pathJoin = (\<lambda>a b. a), pathResolve = (\<lambda>f. f)\<rparr>))) notifyMarkers"
    by code_simp
  then show ?thesis using 3 by (simp add: buildDesktopNotifyCommand_def)
qed

lemma someHook_buildHooks:
  assumes "getPlatformConfig e = Inr config"
  shows "someHook (buildHooks e c n) notifyMarkers
           = Inr (list_ex (includesStr c) notifyMarkers \<or> n)"
proof -
  from notify_command_marker[OF assms] obtain nc where
    nc: "buildDesktopNotifyCommand e = Some nc" "list_ex (includesStr nc) notifyMarkers" by auto
  show ?thesis
    using nc by (simp add: buildHooks_def anyIncludes_hookEntry)
qed

lemma findHook_buildHooks:
  assumes "list_ex (includesStr c) soundMarkers"
  shows "findHook (buildHooks e c n) soundMarkers = Inr (Some (hookEntry c))"
  using assms by (simp add: buildHooks_def anyIncludes_hookEntry)

lemma describeEvent_setup:
  assumes "getPlatformConfig e = Inr config" and "buildSoundCommand e sp = Inr c"
  shows "describeEvent event (hookGroups (buildHooks e c n))
           = ([EventLine event,
               SoundLine (case matchSound c of Some m \<Rightarrow> m | None \<Rightarrow> c),
               DesktopLine (list_ex (includesStr c) notifyMarkers \<or> n)], None)"
  using findHook_buildHooks[OF sound_marker_present[OF assms]] someHook_buildHooks[OF assms(1)]
  by (simp add: describeEvent_def groupHooks_hookGroups soundText_hookEntry)

lemma reportEvents_contains:
  "snd (reportEvents h es) = None \<Longrightarrow> ev \<in> set es \<Longrightarrow> map_of h ev = Some entry \<Longrightarrow>
   \<exists>pre post. fst (reportEvents h es) = pre @ fst (describeEvent ev entry) @ post"
proof (induction es)
  case Nil
  then show ?case by simp
next
  case (Cons a es)
  from Cons.prems(1) obtain en ls where en: "map_of h a = Some en"
    and de: "describeEvent a en = (ls, None)"
    and rest: "snd (reportEvents h es) = None"
    and all: "fst (reportEvents h (a # es)) = ls @ fst (reportEvents h es)"
    by (auto split: option.splits prod.splits)
  show ?case
  proof (cases "ev = a")
    case True
    then have "fst (reportEvents h (a # es)) = [] @ fst (describeEvent ev entry) @ fst (reportEvents h es)"
      using all en de Cons.prems(3) by simp
    then show ?thesis by blast
  next
    case False
    then have "ev \<in> set es" using Cons.prems(2) by simp
    from Cons.IH[OF rest this Cons.prems(3)] obtain pre post where
      "fst (reportEvents h es) = pre @ fst (describeEvent ev entry) @ post" by auto
    then have "fst (reportEvents h (a # es)) = (ls @ pre) @ fst (describeEvent ev entry) @ post"
      using all by simp
    then show ?thesis by blast
  qed
qed

lemma resolve_default:
  "resolveSoundPath e config p = Inr sp \<Longrightarrow> p = None \<or> p = Some [] \<Longrightarrow> sp = defaultSound config"
  by (auto simp: resolveSoundPath_def split: if_splits)

lemma truthy_hookGroups: "truthy (hookGroups hs)"
  by (simp add: hookGroups_def)

text \<open>The lines that the status loop can print.\<close>

lemma describeEvent_lines:
  "l \<in> set (fst (describeEvent ev entry)) \<Longrightarrow>
   l = EventLine ev \<or> (\<exists>t. l = SoundLine t) \<or> (\<exists>b. l = DesktopLine b)"
proof (cases "groupHooks entry")
  case (JArr hs)
  assume l: "l \<in> set (fst (describeEvent ev entry))"
  show ?thesis
  proof (cases "findHook hs soundMarkers")
    case (Inl err)
    then show ?thesis using l JArr by (simp add: describeEvent_def)
  next
    case (Inr soundHook)
    show ?thesis
    proof (cases soundHook)
      case None
      then show ?thesis using l JArr Inr
        by (cases "someHook hs notifyMarkers") (auto simp: describeEvent_def)
    next
      case (Some sh)
      show ?thesis
      proof (cases "soundText sh")
        case (Inl err)
        then show ?thesis using l JArr Inr Some by (simp add: describeEvent_def)
      next
        case st: (Inr t)
        then show ?thesis using l JArr Inr Some
          by (cases "someHook hs notifyMarkers") (auto simp: describeEvent_def)
      qed
    qed
  qed
qed (simp_all add: describeEvent_def)

lemma reportEvents_lines:
  "l \<in> set (fst (reportEvents h es)) \<Longrightarrow>
   (\<exists>ev \<in> set es. l = EventLine ev) \<or> (\<exists>t. l = SoundLine t) \<or> (\<exists>b. l = DesktopLine b)"
proof (induction es)
  case Nil
  then show ?case by simp
next
  case (Cons a es)
  show ?case
  proof (cases "map_of h a")
    case None
    then show ?thesis using Cons.prems by simp
  next
    case (Some entry)
    obtain ls r where de: "describeEvent a entry = (ls, r)" by force
    obtain ls' r' where re: "reportEvents h es = (ls', r')" by force
    have "l \<in> set ls \<or> l \<in> set ls'"
      using Cons.prems Some de re by (cases r) auto
    then show ?thesis
    proof
      assume "l \<in> set ls"
      then show ?thesis using describeEvent_lines[of l a entry] de by auto
    next
      assume "l \<in> set ls'"
      then show ?thesis using Cons.IH re by auto
    qed
  qed
qed

text \<open>Values without other numerals than doubles are written as they were read.\<close>

lemma reserialise_fixed: "doubleNumbers v \<Longrightarrow> reserialise v = v"
proof (induction v)
  case (JNum q)
  then show ?case by (simp add: toDouble_def)
next
  case (JArr xs)
  then show ?case by (simp add: list_all_iff map_idI)
next
  case (JObj kvs)
  have "(case kv of (k, v) \<Rightarrow> (k, reserialise v)) = kv" if "kv \<in> set kvs" for kv
  proof (cases kv)
    case (Pair k v)
    then have "v \<in> Basic_BNFs.snds kv" by simp
    moreover have "doubleNumbers v" using JObj.prems that Pair by (auto simp: list_all_iff)
    ultimately show ?thesis using JObj.IH[OF that] Pair by simp
  qed
  then show ?case by (simp add: map_idI)
qed simp_all

lemma reserialiseObj_fixed:
  "list_all (\<lambda>(k, v). doubleNumbers v) ob \<Longrightarrow> reserialiseObj ob = ob"
  by (induction ob) (auto simp: reserialise_fixed)

text \<open>The document that the clean-up and the write leave.\<close>

lemma cleanUp_written:
  "hooks (reserialiseSettings (cleanUp s h)) \<noteq> Some []
   \<and> ((hooks (reserialiseSettings (cleanUp s h)) = None)
        = (\<forall>k. map_of (hooksOrEmpty (reserialiseSettings (cleanUp s h))) k = None))
   \<and> (\<forall>k. map_of (hooksOrEmpty (reserialiseSettings (cleanUp s h))) k
          = map_option reserialise (map_of h k))
   \<and> others (reserialiseSettings (cleanUp s h)) = reserialiseObj (others s)"
proof -
  have a: "hooks (reserialiseSettings (cleanUp s h)) \<noteq> Some []"
    by (simp add: cleanUp_def)
  have c: "(hooks (reserialiseSettings (cleanUp s h)) = None) = (h = [])"
    by (simp add: cleanUp_def)
  have d: "(h = []) = (\<forall>k. map_of (reserialiseObj h) k = None)"
  proof (cases h)
    case Nil
    then show ?thesis by simp
  next
    case (Cons kv h')
    then have "map_of (reserialiseObj h) (fst kv) \<noteq> None" by (cases kv) simp
    then have "\<not> (\<forall>k. map_of (reserialiseObj h) k = None)" by (auto simp del: not_None_eq)
    then show ?thesis using Cons by simp
  qed
  show ?thesis
    using a c d by (simp add: map_of_reserialiseObj others_cleanUp hooksOrEmpty_cleanUp)
qed

text \<open>Calls that return normally, by the message they return.\<close>

lemma disable_all_success:
  assumes "fst (disableNotifications ev d) = Inr (AllDisabled c)"
  shows "\<exists>s b. readSettings d = Inr s \<and> configuredEvents s \<noteq> []
           \<and> fst (backupCurrentConfig d) = Inr b
           \<and> settingsWrite d = Succeeds
           \<and> snd (disableNotifications ev d)
               = (snd (backupCurrentConfig d))
                   \<lparr>settingsFile := Holds (reserialiseSettings
                      (cleanUp s (deleteAll (hooksOrEmpty s) (configuredEvents s))))\<rparr>"
proof -
  from assms obtain s where 1: "readSettings d = Inr s"
    by (cases "readSettings d") (simp_all add: disable_cases)
  from assms 1 have 2: "configuredEvents s \<noteq> []"
    by (auto simp: disable_cases split: if_splits)
  from assms 1 2 obtain b where 3: "fst (backupCurrentConfig d) = Inr b"
    by (cases "fst (backupCurrentConfig d)") (simp_all add: disable_cases)
  from assms 1 2 3 have 4: "eventArg ev = None"
    by (cases "eventArg ev") (auto simp: disable_cases fst_reported_Inr split: if_splits)
  from assms 1 2 3 4 have 5: "settingsWrite d = Succeeds"
    by (simp add: disable_cases fst_reported_Inr writeSettings_Inr)
  have "snd (disableNotifications ev d)
      = (snd (backupCurrentConfig d))
          \<lparr>settingsFile := Holds (reserialiseSettings
             (cleanUp s (deleteAll (hooksOrEmpty s) (configuredEvents s))))\<rparr>"
    using 1 2 3 4 5 by (simp add: disable_cases writeSettings_Succeeds)
  then show ?thesis using 1 2 3 5 by blast
qed

lemma disable_one_success:
  assumes "fst (disableNotifications ev d) = Inr (EventDisabled x)"
  shows "\<exists>s b. readSettings d = Inr s \<and> configuredEvents s \<noteq> []
           \<and> eventArg ev = Some x
           \<and> fst (backupCurrentConfig d) = Inr b
           \<and> settingsWrite d = Succeeds
           \<and> snd (disableNotifications ev d)
               = (snd (backupCurrentConfig d))
                   \<lparr>settingsFile := Holds (reserialiseSettings
                      (cleanUp s (deleteProp (hooksOrEmpty s) x)))\<rparr>"
proof -
  from assms obtain s where 1: "readSettings d = Inr s"
    by (cases "readSettings d") (simp_all add: disable_cases)
  from assms 1 have 2: "configuredEvents s \<noteq> []"
    by (auto simp: disable_cases split: if_splits)
  from assms 1 2 obtain b where 3: "fst (backupCurrentConfig d) = Inr b"
    by (cases "fst (backupCurrentConfig d)") (simp_all add: disable_cases)
  from assms 1 2 3 have 4: "eventArg ev = Some x"
    by (cases "eventArg ev") (auto simp: disable_cases fst_reported_Inr split: if_splits)
  from assms 1 2 3 4 have 5: "truthyVal (getProp (hooksOrEmpty s) x)"
    by (auto simp: disable_cases split: if_splits)
  from assms 1 2 3 4 5 have 6: "settingsWrite d = Succeeds"
    by (simp add: disable_cases fst_reported_Inr writeSettings_Inr)
  have "snd (disableNotifications ev d)
      = (snd (backupCurrentConfig d))
          \<lparr>settingsFile := Holds (reserialiseSettings
             (cleanUp s (deleteProp (hooksOrEmpty s) x)))\<rparr>"
    using 1 2 3 4 5 6 by (simp add: disable_cases writeSettings_Succeeds)
  then show ?thesis using 1 2 3 4 6 by blast
qed

lemma disable_noop:
  assumes "fst (disableNotifications ev d) = Inr NothingConfigured
         \<or> fst (disableNotifications ev d) = Inr (NotConfiguredFor x)"
  shows "settingsFile (snd (disableNotifications ev d)) = settingsFile d"
proof (cases "readSettings d")
  case (Inl err)
  then show ?thesis by (simp add: disable_cases)
next
  case (Inr s)
  show ?thesis
  proof (cases "configuredEvents s = []")
    case True
    then show ?thesis using Inr by (simp add: disable_cases)
  next
    case False
    show ?thesis
    proof (cases "fst (backupCurrentConfig d)")
      case (Inl err)
      then show ?thesis using \<open>readSettings d = Inr s\<close> False by (simp add: disable_cases)
    next
      case (Inr b)
      then show ?thesis
        using \<open>readSettings d = Inr s\<close> False assms
        by (cases "eventArg ev") (auto simp: disable_cases fst_reported_Inr split: if_splits)
    qed
  qed
qed

lemma remove_success:
  assumes "fst (removeNotification event d) = Inr (Removed x)"
  shows "\<exists>s. readSettings d = Inr s \<and> x = event
           \<and> settingsWrite d = Succeeds
           \<and> snd (removeNotification event d)
               = (unlinkBackup d)
                   \<lparr>settingsFile := Holds (reserialiseSettings
                      (cleanUp s (deleteProp (hooksOrEmpty s) event)))\<rparr>"
proof -
  from assms obtain s where 1: "readSettings d = Inr s"
    by (cases "readSettings d") (simp_all add: remove_cases)
  from assms 1 have 2: "hooks s \<noteq> None \<and> truthyVal (getProp (hooksOrEmpty s) event)"
    by (simp add: remove_cases split: if_splits)
  from assms 1 2 have 3: "settingsWrite d = Succeeds" and 4: "x = event"
    by (simp_all add: remove_cases fst_reported_Inr writeSettings_Inr)
  have "snd (removeNotification event d)
      = (unlinkBackup d)
          \<lparr>settingsFile := Holds (reserialiseSettings
             (cleanUp s (deleteProp (hooksOrEmpty s) event)))\<rparr>"
    using 1 2 3 by (simp add: remove_cases writeSettings_Succeeds)
  then show ?thesis using 1 3 4 by blast
qed

lemma remove_noop:
  assumes "fst (removeNotification event d) = Inr (NotConfiguredFor x)"
  shows "snd (removeNotification event d) = d"
  using assms
  by (cases "readSettings d") (auto simp: remove_cases fst_reported_Inr split: if_splits)

text \<open>Calls that end with an error.\<close>

lemma write_error:
  assumes "fst (reported m (writeSettings s d)) = Inl err"
  shows "err = IoError
       \<and> backupFile (snd (writeSettings s d)) = backupFile d
       \<and> (settingsFile (snd (writeSettings s d)) = settingsFile d
          \<or> (settingsWrite d = Truncates \<and> settingsFile (snd (writeSettings s d)) = Unreadable))"
  using assms by (auto simp: fst_reported_Inl writeSettings_def split: writeMode.splits)

lemma setup_error:
  assumes "fst (setupNotification e event p n d) = Inl err"
  shows "(settingsFile (snd (setupNotification e event p n d)) = settingsFile d
          \<or> (err = IoError \<and> settingsWrite d = Truncates
              \<and> settingsFile (snd (setupNotification e event p n d)) = Unreadable))
       \<and> (err \<noteq> IoError \<longrightarrow> (\<forall>sp. err \<noteq> SoundNotFound sp) \<longrightarrow>
             snd (setupNotification e event p n d) = d)
       \<and> backupFile (snd (setupNotification e event p n d))
           \<in> {backupFile d, backupFile (snd (backupCurrentConfig d))}"
proof (cases "getPlatformConfig e")
  case (Inl err')
  then show ?thesis by (simp add: setup_cases)
next
  case config: (Inr config)
  show ?thesis
  proof (cases "fst (backupCurrentConfig d)")
    case (Inl err')
    then have "err' = err" using assms config by (simp add: setup_cases)
    then show ?thesis using Inl config backup_Inl[OF Inl] by (auto simp: setup_cases)
  next
    case b: (Inr b)
    then obtain s where s: "readSettings d = Inr s" using backup_Inr_read by blast
    show ?thesis
    proof (cases "resolveSoundPath e config p")
      case (Inl err')
      then have "err' = err" using assms config b by (simp add: setup_cases)
      then show ?thesis using Inl config b resolve_error[OF Inl] by (auto simp: setup_cases)
    next
      case sp: (Inr sp)
      obtain c where c: "buildSoundCommand e sp = Inr c"
        using getPlatformConfig_build[OF config, of sp]
        by (cases "buildSoundCommand e sp") auto
      let ?w = "writeSettings
                  (s\<lparr>hooks := Some (setProp (hooksOrEmpty s) event
                                      (hookGroups (buildHooks e c n)))\<rparr>)
                  (snd (backupCurrentConfig d))"
      have r: "setupNotification e event p n d = reported (Configured event sp n) ?w"
        using config b sp s c by (simp add: setup_cases)
      from assms have "fst (reported (Configured event sp n) ?w) = Inl err" by (simp add: r)
      from write_error[OF this] show ?thesis by (auto simp: r)
    qed
  qed
qed

lemma enable_error:
  assumes "fst (enableNotifications ev d) = Inl err"
  shows "(settingsFile (snd (enableNotifications ev d)) = settingsFile d
          \<or> (err = IoError \<and> settingsWrite d = Truncates
              \<and> settingsFile (snd (enableNotifications ev d)) = Unreadable))
       \<and> (err \<noteq> IoError \<longrightarrow> snd (enableNotifications ev d) = d)"
  using assms
  by (auto simp: enable_cases fst_reported_Inl writeSettings_def
      split: stored.splits sum.splits option.splits jsval.splits if_splits writeMode.splits)

lemma disable_error:
  assumes "fst (disableNotifications ev d) = Inl err"
  shows "(settingsFile (snd (disableNotifications ev d)) = settingsFile d
          \<or> (err = IoError \<and> settingsWrite d = Truncates
              \<and> settingsFile (snd (disableNotifications ev d)) = Unreadable))
       \<and> (err \<noteq> IoError \<longrightarrow> snd (disableNotifications ev d) = d)
       \<and> backupFile (snd (disableNotifications ev d))
           \<in> {backupFile d, backupFile (snd (backupCurrentConfig d))}"
proof (cases "readSettings d")
  case (Inl err')
  then show ?thesis by (simp add: disable_cases)
next
  case s: (Inr s)
  show ?thesis
  proof (cases "configuredEvents s = []")
    case True
    then show ?thesis using s by (simp add: disable_cases)
  next
    case False
    show ?thesis
    proof (cases "fst (backupCurrentConfig d)")
      case (Inl err')
      then have "err' = err" using assms s False by (simp add: disable_cases)
      then show ?thesis using Inl s False backup_Inl[OF Inl] by (auto simp: disable_cases)
    next
      case b: (Inr b)
      show ?thesis
      proof (cases "eventArg ev")
        case None
        let ?w = "writeSettings (cleanUp s (deleteAll (hooksOrEmpty s) (configuredEvents s)))
                    (snd (backupCurrentConfig d))"
        have r: "disableNotifications ev d
                   = reported (AllDisabled (length (configuredEvents s))) ?w"
          using s False b None by (simp add: disable_cases)
        from assms have "fst (reported (AllDisabled (length (configuredEvents s))) ?w) = Inl err"
          by (simp add: r)
        from write_error[OF this] show ?thesis by (auto simp: r)
      next
        case (Some x)
        show ?thesis
        proof (cases "truthyVal (getProp (hooksOrEmpty s) x)")
          case True
          let ?w = "writeSettings (cleanUp s (deleteProp (hooksOrEmpty s) x))
                      (snd (backupCurrentConfig d))"
          have r: "disableNotifications ev d = reported (EventDisabled x) ?w"
            using s False b Some True by (simp add: disable_cases)
          from assms have "fst (reported (EventDisabled x) ?w) = Inl err" by (simp add: r)
          from write_error[OF this] show ?thesis by (auto simp: r)
        next
          case False
          then show ?thesis
            using assms s \<open>configuredEvents s \<noteq> []\<close> b Some by (simp add: disable_cases)
        qed
      qed
    qed
  qed
qed

lemma remove_error:
  assumes "fst (removeNotification event d) = Inl err"
  shows "(settingsFile (snd (removeNotification event d)) = settingsFile d
          \<or> (err = IoError \<and> settingsWrite d = Truncates
              \<and> settingsFile (snd (removeNotification event d)) = Unreadable))
       \<and> (err \<noteq> IoError \<longrightarrow> snd (removeNotification event d) = d)
       \<and> (backupFile (snd (removeNotification event d)) = backupFile d
          \<or> (backupUnlink d \<and> backupFile (snd (removeNotification event d)) = Missing))"
proof (cases "readSettings d")
  case (Inl err')
  then show ?thesis by (simp add: remove_cases)
next
  case s: (Inr s)
  show ?thesis
  proof (cases "hooks s \<noteq> None \<and> truthyVal (getProp (hooksOrEmpty s) event)")
    case True
    let ?w = "writeSettings (cleanUp s (deleteProp (hooksOrEmpty s) event)) (unlinkBackup d)"
    have r: "removeNotification event d = reported (Removed event) ?w"
      using s True by (simp add: remove_cases)
    from assms have "fst (reported (Removed event) ?w) = Inl err" by (simp add: r)
    from write_error[OF this] show ?thesis by (auto simp: r unlinkBackup_def)
  next
    case False
    then show ?thesis using assms s by (auto simp: remove_cases)
  qed
qed

text \<open>Calls that return normally: the settings file they leave.\<close>

lemma write_normal:
  assumes "fst (reported m (writeSettings s d)) = Inr m'"
  shows "settingsFile (snd (writeSettings s d)) = Holds (reserialiseSettings s)"
  using assms by (auto simp: fst_reported_Inr writeSettings_def split: writeMode.splits)

lemma enable_backup_frame: "backupFile (snd (enableNotifications ev d)) = backupFile d"
  by (simp add: enable_cases split: stored.splits sum.splits option.splits jsval.splits)

lemma enable_normal:
  assumes "fst (enableNotifications ev d) = Inr m"
  shows "snd (enableNotifications ev d) = d
       \<or> (\<exists>s b g. readSettings d = Inr s \<and> backupFile d = Holds b
            \<and> settingsFile (snd (enableNotifications ev d))
                = Holds (reserialiseSettings (s\<lparr>hooks := Some g\<rparr>))
            \<and> ((eventArg ev = None \<and> g = objectAssign (hooksOrEmpty s) b)
               \<or> (\<exists>x v. eventArg ev = Some x
                     \<and> (g = setProp (hooksOrEmpty s) x v \<or> g = setInherited (hooksOrEmpty s) x))))"
proof (cases "backupFile d")
  case (Holds b)
  show ?thesis
  proof (cases "readSettings d")
    case (Inl err)
    then show ?thesis using Holds by (simp add: enable_cases)
  next
    case s: (Inr s)
    show ?thesis
    proof (cases "eventArg ev")
      case None
      then have r: "enableNotifications ev d
          = reported (AllEnabled (length b))
              (writeSettings (s\<lparr>hooks := Some (objectAssign (hooksOrEmpty s) b)\<rparr>) d)"
        using Holds s by (simp add: enable_cases)
      from assms have "settingsFile (snd (enableNotifications ev d))
          = Holds (reserialiseSettings (s\<lparr>hooks := Some (objectAssign (hooksOrEmpty s) b)\<rparr>))"
        unfolding r by (simp add: write_normal)
      then show ?thesis using Holds s None by blast
    next
      case (Some x)
      show ?thesis
      proof (cases "getProp b x")
        case Undefined
        then show ?thesis using Holds s Some by (simp add: enable_cases)
      next
        case (Own v)
        show ?thesis
        proof (cases "truthy v")
          case True
          then have r: "enableNotifications ev d
              = reported (EventEnabled x)
                  (writeSettings (s\<lparr>hooks := Some (setProp (hooksOrEmpty s) x v)\<rparr>) d)"
            using Holds s Some Own by (simp add: enable_cases)
          from assms have "settingsFile (snd (enableNotifications ev d))
              = Holds (reserialiseSettings (s\<lparr>hooks := Some (setProp (hooksOrEmpty s) x v)\<rparr>))"
            unfolding r by (simp add: write_normal)
          then show ?thesis using Holds s Some by blast
        next
          case False
          then show ?thesis using Holds s Some Own by (simp add: enable_cases)
        qed
      next
        case Inherited
        then have r: "enableNotifications ev d
            = reported (EventEnabled x)
                (writeSettings (s\<lparr>hooks := Some (setInherited (hooksOrEmpty s) x)\<rparr>) d)"
          using Holds s Some by (simp add: enable_cases)
        from assms have "settingsFile (snd (enableNotifications ev d))
            = Holds (reserialiseSettings (s\<lparr>hooks := Some (setInherited (hooksOrEmpty s) x)\<rparr>))"
          unfolding r by (simp add: write_normal)
        then show ?thesis using Holds s Some by blast
      qed
    qed
  qed
qed (simp_all add: enable_cases)

lemma disable_normal:
  assumes "fst (disableNotifications ev d) = Inr m"
  shows "settingsFile (snd (disableNotifications ev d)) = settingsFile d
       \<or> (\<exists>s g. readSettings d = Inr s
            \<and> settingsFile (snd (disableNotifications ev d))
                = Holds (reserialiseSettings (cleanUp s g))
            \<and> ((eventArg ev = None \<and> g = deleteAll (hooksOrEmpty s) (configuredEvents s))
               \<or> (\<exists>x. eventArg ev = Some x \<and> g = deleteProp (hooksOrEmpty s) x)))"
proof (cases "readSettings d")
  case (Inl err)
  then show ?thesis by (simp add: disable_cases)
next
  case s: (Inr s)
  show ?thesis
  proof (cases "configuredEvents s = []")
    case True
    then show ?thesis using s by (simp add: disable_cases)
  next
    case False
    show ?thesis
    proof (cases "fst (backupCurrentConfig d)")
      case (Inl err)
      then show ?thesis using s False by (simp add: disable_cases)
    next
      case b: (Inr b)
      show ?thesis
      proof (cases "eventArg ev")
        case None
        let ?g = "deleteAll (hooksOrEmpty s) (configuredEvents s)"
        have r: "disableNotifications ev d
                   = reported (AllDisabled (length (configuredEvents s)))
                       (writeSettings (cleanUp s ?g) (snd (backupCurrentConfig d)))"
          using s False b None by (simp add: disable_cases)
        from assms have "settingsFile (snd (disableNotifications ev d))
            = Holds (reserialiseSettings (cleanUp s ?g))"
          unfolding r by (simp add: write_normal)
        then show ?thesis using s None by blast
      next
        case (Some x)
        show ?thesis
        proof (cases "truthyVal (getProp (hooksOrEmpty s) x)")
          case True
          let ?g = "deleteProp (hooksOrEmpty s) x"
          have r: "disableNotifications ev d
                     = reported (EventDisabled x)
                         (writeSettings (cleanUp s ?g) (snd (backupCurrentConfig d)))"
            using s False b Some True by (simp add: disable_cases)
          from assms have "settingsFile (snd (disableNotifications ev d))
              = Holds (reserialiseSettings (cleanUp s ?g))"
            unfolding r by (simp add: write_normal)
          then show ?thesis using s Some by blast
        next
          case False
          then show ?thesis
            using s \<open>configuredEvents s \<noteq> []\<close> b Some by (simp add: disable_cases)
        qed
      qed
    qed
  qed
qed

lemma remove_normal:
  assumes "fst (removeNotification event d) = Inr m"
  shows "settingsFile (snd (removeNotification event d)) = settingsFile d
       \<or> (\<exists>s. readSettings d = Inr s
            \<and> settingsFile (snd (removeNotification event d))
                = Holds (reserialiseSettings (cleanUp s (deleteProp (hooksOrEmpty s) event))))"
proof (cases "readSettings d")
  case (Inl err)
  then show ?thesis by (simp add: remove_cases)
next
  case s: (Inr s)
  show ?thesis
  proof (cases "hooks s \<noteq> None \<and> truthyVal (getProp (hooksOrEmpty s) event)")
    case True
    let ?g = "deleteProp (hooksOrEmpty s) event"
    have r: "removeNotification event d
               = reported (Removed event) (writeSettings (cleanUp s ?g) (unlinkBackup d))"
      using s True by (simp add: remove_cases)
    from assms have "settingsFile (snd (removeNotification event d))
        = Holds (reserialiseSettings (cleanUp s ?g))"
      unfolding r by (simp add: write_normal)
    then show ?thesis using s by blast
  next
    case False
    then show ?thesis using s by (auto simp: remove_cases)
  qed
qed

lemma map_of_deleteProp: "map_of (deleteProp g x) k = (if k = x then None else map_of g k)"
  by (simp add: deleteProp_def delete_conv')

text \<open>On a file system that takes the two writes, \<^verbatim>\<open>disableNotifications()\<close> returns normally.\<close>

lemma configuredEvents_hooks: "hooks s = hooks s' \<Longrightarrow> configuredEvents s = configuredEvents s'"
  by (simp add: configuredEvents_def)

lemma disable_all_healthy:
  assumes "settingsFile d = Holds s" and "configuredEvents s \<noteq> []"
    and "backupWrite d = Succeeds" and "settingsWrite d = Succeeds"
  shows "disableNotifications None d
       = (Inr (AllDisabled (length (configuredEvents s))),
          d\<lparr>backupFile := Holds (reserialiseObj (snapshot (hooksOrEmpty s))),
            settingsFile := Holds (reserialiseSettings
              (cleanUp s (deleteAll (hooksOrEmpty s) (configuredEvents s))))\<rparr>)"
proof -
  obtain h where h: "hooks s = Some h"
    using assms(2) configuredEvents_no_hooks[of s] by (cases "hooks s") auto
  have rs: "readSettings d = Inr s" using assms(1) by (simp add: readSettings_def)
  have bc: "backupCurrentConfig d
      = (Inr True, d\<lparr>backupFile := Holds (reserialiseObj (snapshot h))\<rparr>)"
    using assms(1-3) h by (simp add: backupCurrentConfig_cases writeBackup_Succeeds)
  show ?thesis
    using rs assms(2,4) h
    by (simp add: disable_cases bc eventArg_def writeSettings_Succeeds hooksOrEmpty_def)
qed

section \<open>Disable then enable\<close>

text \<open>
  Claim C1, amended. Take a settings document whose \<^verbatim>\<open>hooks\<close> mapping holds a managed
  event \<open>e\<close> (with a value that JavaScript counts as present: any array, so any sequence
  of hook groups). Let \<^verbatim>\<open>disableNotifications()\<close> and then \<^verbatim>\<open>enableNotifications()\<close> both
  return normally, whatever the backup file held before. Then the final document has a
  \<^verbatim>\<open>hooks\<close> mapping that gives every key, managed or not, the value it had before the
  disable as \<^verbatim>\<open>JSON.stringify\<close> writes it after \<^verbatim>\<open>JSON.parse\<close>: the same value when every
  numeral in it is a double, and otherwise the value with each numeral replaced by its
  double, or by \<^verbatim>\<open>null\<close> when that is an infinity. The same holds for the entries under
  names outside the event list in the document between the two calls, and for the other
  top-level keys in both documents written.
\<close>

theorem disable_enable_roundtrip:
  assumes "settingsFile d = Holds s" and "hooks s = Some h"
    and "e \<in> set eventNames" and "map_of h e = Some v" and "truthy v"
    and "disableNotifications None d = (Inr m1, d1)"
    and "enableNotifications None d1 = (Inr m2, d2)"
  shows "\<exists>s1 s2 h2. settingsFile d1 = Holds s1 \<and> settingsFile d2 = Holds s2
           \<and> hooks s2 = Some h2
           \<and> (\<forall>k. map_of h2 k = map_option reserialise (map_of h k))
           \<and> (\<forall>k w. map_of h k = Some w \<longrightarrow> doubleNumbers w \<longrightarrow> map_of h2 k = Some w)
           \<and> (\<forall>k. k \<notin> set eventNames \<longrightarrow>
                 map_of (hooksOrEmpty s1) k = map_option reserialise (map_of h k))
           \<and> others s1 = reserialiseObj (others s) \<and> others s2 = reserialiseObj (others s)
           \<and> (list_all (\<lambda>(k, w). doubleNumbers w) (others s) \<longrightarrow>
                 others s1 = others s \<and> others s2 = others s)"
proof -
  have rs: "readSettings d = Inr s" using assms(1) by (simp add: readSettings_def)
  have he: "hooksOrEmpty s = h" using assms(2) by (simp add: hooksOrEmpty_def)
  have "e \<in> set (configuredEvents s)"
    using assms(2-5) by (simp add: set_configuredEvents ownTruthy_def)
  then have ne: "configuredEvents s \<noteq> []" by auto
  let ?h1 = "deleteAll h (configuredEvents s)"
  let ?s1 = "reserialiseSettings (cleanUp s ?h1)"
  from assms(6) have f1: "fst (disableNotifications None d) = Inr m1"
    and sd1: "snd (disableNotifications None d) = d1" by simp_all
  from f1 obtain b where b: "fst (backupCurrentConfig d) = Inr b"
    using rs ne by (cases "fst (backupCurrentConfig d)") (simp_all add: disable_cases)
  have bw: "backupWrite d = Succeeds" by (rule backup_attempt_Succeeds[OF b assms(1) ne])
  have bc: "snd (backupCurrentConfig d) = d\<lparr>backupFile := Holds (reserialiseObj (snapshot h))\<rparr>"
    using assms(1,2) ne bw by (simp add: backupCurrentConfig_cases writeBackup_Succeeds)
  from f1 have sw: "settingsWrite d = Succeeds"
    using rs ne b by (simp add: disable_cases eventArg_def fst_reported_Inr writeSettings_Inr)
  have d1: "d1 = d\<lparr>backupFile := Holds (reserialiseObj (snapshot h)),
                   settingsFile := Holds ?s1\<rparr>"
    using sd1 rs ne b sw
    by (simp add: disable_cases eventArg_def writeSettings_Succeeds bc he)
  have rs1: "readSettings d1 = Inr ?s1" by (simp add: d1 readSettings_def)
  have he1: "hooksOrEmpty ?s1 = reserialiseObj ?h1" by (simp add: hooksOrEmpty_cleanUp)
  let ?h2 = "reserialiseObj (objectAssign ?h1 (snapshot h))"
  let ?s2 = "reserialiseSettings
               (?s1\<lparr>hooks := Some (objectAssign (reserialiseObj ?h1)
                                     (reserialiseObj (snapshot h)))\<rparr>)"
  from assms(7) have sd2: "snd (enableNotifications None d1) = d2" by simp
  have sw1: "settingsWrite d1 = Succeeds" using sw by (simp add: d1)
  have bf1: "backupFile d1 = Holds (reserialiseObj (snapshot h))" by (simp add: d1)
  have "settingsFile (snd (enableNotifications None d1)) = Holds ?s2"
    using rs1 sw1 bf1 he1 by (simp add: enable_cases eventArg_def writeSettings_Succeeds)
  then have d2: "settingsFile d2 = Holds ?s2" by (simp add: sd2)
  have h2: "hooks ?s2 = Some ?h2"
    by (simp add: reserialiseObj_objectAssign reserialiseObj_idem)
  have m0: "map_of (objectAssign ?h1 (snapshot h)) k = map_of h k" for k
    by (auto simp: map_of_objectAssign_distinct[OF snapshot_no_proto distinct_snapshot]
        map_add_def map_of_snapshot map_of_deleteAll set_configuredEvents[OF assms(2)]
        ownTruthy_def split: option.splits)
  have m: "map_of ?h2 k = map_option reserialise (map_of h k)" for k
    by (simp add: map_of_reserialiseObj m0)
  have mf: "map_of ?h2 k = Some w" if "map_of h k = Some w" "doubleNumbers w" for k w
    using that by (simp add: m reserialise_fixed)
  have u: "k \<notin> set eventNames \<Longrightarrow>
      map_of (hooksOrEmpty ?s1) k = map_option reserialise (map_of h k)" for k
    by (simp add: hooksOrEmpty_cleanUp map_of_reserialiseObj map_of_deleteAll
        set_configuredEvents[OF assms(2)])
  have o1: "others ?s1 = reserialiseObj (others s)" by (simp add: others_cleanUp)
  have o2: "others ?s2 = reserialiseObj (others s)"
    by (simp add: others_cleanUp reserialiseObj_idem)
  have of: "list_all (\<lambda>(k, w). doubleNumbers w) (others s) \<longrightarrow>
      others ?s1 = others s \<and> others ?s2 = others s"
    using o1 o2 by (simp add: reserialiseObj_fixed)
  have sf1: "settingsFile d1 = Holds ?s1" by (simp add: d1)
  show ?thesis
    apply (rule exI[of _ ?s1], rule exI[of _ ?s2], rule exI[of _ ?h2])
    using sf1 d2 h2 m mf u o1 o2 of by (intro conjI allI impI) blast+
qed

theorem disable_enable_roundtrip_witness:
  "\<exists>s1 s2 h2.
      settingsFile (snd (disableNotifications None exampleDisk)) = Holds s1
    \<and> settingsFile (snd (enableNotifications None (snd (disableNotifications None exampleDisk))))
        = Holds s2
    \<and> hooks s2 = Some h2
    \<and> (\<forall>k. map_of h2 k = map_option reserialise (map_of exampleHooks k))
    \<and> map_of h2 ''Stop'' = Some stopEntry
    \<and> others s1 = others exampleSettings \<and> others s2 = others exampleSettings"
proof -
  have 1: "settingsFile exampleDisk = Holds exampleSettings" by code_simp
  have 2: "hooks exampleSettings = Some exampleHooks" by code_simp
  have 3: "''Stop'' \<in> set eventNames" by (simp add: eventNames_eq)
  have 4: "map_of exampleHooks ''Stop'' = Some stopEntry" by code_simp
  have 5: "truthy stopEntry" by code_simp
  have "fst (disableNotifications None exampleDisk) = Inr (AllDisabled 1)" by code_simp
  then have 6: "disableNotifications None exampleDisk
      = (Inr (AllDisabled 1), snd (disableNotifications None exampleDisk))"
    by (metis prod.collapse)
  have "fst (enableNotifications None (snd (disableNotifications None exampleDisk)))
      = Inr (AllEnabled 1)" by code_simp
  then have 7: "enableNotifications None (snd (disableNotifications None exampleDisk))
      = (Inr (AllEnabled 1),
         snd (enableNotifications None (snd (disableNotifications None exampleDisk))))"
    by (metis prod.collapse)
  have 8: "doubleNumbers stopEntry" by code_simp
  have 9: "list_all (\<lambda>(k, w). doubleNumbers w) (others exampleSettings)" by code_simp
  from disable_enable_roundtrip[OF 1 2 3 4 5 6 7] 4 8 9 show ?thesis by blast
qed

text \<open>
  The claim as stated fails for a document with a numeral that no double holds. The value
  of the top-level key \<^verbatim>\<open>big\<close>, \<open>2 ^ 53 + 1\<close>, is written back as \<open>2 ^ 53\<close> by the disable,
  and stays so after the enable; and the value \<^verbatim>\<open>1e400\<close> is written back as \<^verbatim>\<open>null\<close> by
  the disable.
\<close>

theorem roundtrip_numeral_counterexample:
  "settingsFile bigNumberDisk
     = Holds \<lparr>hooks = Some [(''Stop'', stopEntry)],
              others = [(''big'', JNum 9007199254740993)]\<rparr>
   \<and> fst (disableNotifications None bigNumberDisk) = Inr (AllDisabled 1)
   \<and> settingsFile (snd (disableNotifications None bigNumberDisk))
     = Holds \<lparr>hooks = None, others = [(''big'', JNum 9007199254740992)]\<rparr>
   \<and> fst (enableNotifications None (snd (disableNotifications None bigNumberDisk)))
     = Inr (AllEnabled 1)
   \<and> settingsFile (snd (enableNotifications None (snd (disableNotifications None bigNumberDisk))))
     = Holds \<lparr>hooks = Some [(''Stop'', stopEntry)],
              others = [(''big'', JNum 9007199254740992)]\<rparr>
   \<and> othersOf (snd (enableNotifications None (snd (disableNotifications None bigNumberDisk))))
     \<noteq> othersOf bigNumberDisk
   \<and> othersOf hugeNumberDisk = [(''big'', JNum (10 ^ 400))]
   \<and> fst (disableNotifications None hugeNumberDisk) = Inr (AllDisabled 1)
   \<and> othersOf (snd (disableNotifications None hugeNumberDisk)) = [(''big'', JNull)]"
proof -
  have big: "settingsFile bigNumberDisk
     = Holds \<lparr>hooks = Some [(''Stop'', stopEntry)],
              others = [(''big'', JNum 9007199254740993)]\<rparr>
   \<and> fst (disableNotifications None bigNumberDisk) = Inr (AllDisabled 1)
   \<and> settingsFile (snd (disableNotifications None bigNumberDisk))
     = Holds \<lparr>hooks = None, others = [(''big'', JNum 9007199254740992)]\<rparr>
   \<and> fst (enableNotifications None (snd (disableNotifications None bigNumberDisk)))
     = Inr (AllEnabled 1)
   \<and> settingsFile (snd (enableNotifications None (snd (disableNotifications None bigNumberDisk))))
     = Holds \<lparr>hooks = Some [(''Stop'', stopEntry)],
              others = [(''big'', JNum 9007199254740992)]\<rparr>
   \<and> othersOf (snd (enableNotifications None (snd (disableNotifications None bigNumberDisk))))
     \<noteq> othersOf bigNumberDisk"
    by code_simp
  define s where "s = \<lparr>hooks = Some [(''Stop'', stopEntry)],
                       others = [(''big'', JNum (10 ^ 400))]\<rparr>"
  have 1: "settingsFile hugeNumberDisk = Holds s"
    and 2: "backupWrite hugeNumberDisk = Succeeds"
    and 3: "settingsWrite hugeNumberDisk = Succeeds"
    by (simp_all add: hugeNumberDisk_def healthy_def s_def)
  have "configuredEvents \<lparr>hooks = Some [(''Stop'', stopEntry)], others = []\<rparr> = [''Stop'']"
    by code_simp
  then have 4: "configuredEvents s = [''Stop'']"
    using configuredEvents_hooks[of s "\<lparr>hooks = Some [(''Stop'', stopEntry)], others = []\<rparr>"]
    by (simp add: s_def)
  then have 5: "configuredEvents s \<noteq> []" by simp
  have o: "others s = [(''big'', JNum (10 ^ 400))]" by (simp add: s_def)
  have "pow2 1024 \<le> \<bar>10 ^ 400 :: rat\<bar>" by (simp add: pow2_def)
  then have r: "reserialise (JNum (10 ^ 400)) = JNull" by (rule reserialise_overflow)
  have ro: "reserialiseObj (others s) = [(''big'', JNull)]"
    unfolding o reserialiseObj_def list.map prod.case r ..
  have a: "othersOf hugeNumberDisk = [(''big'', JNum (10 ^ 400))]"
    unfolding othersOf_def 1 stored.case o ..
  have b: "fst (disableNotifications None hugeNumberDisk) = Inr (AllDisabled 1)"
    by (simp add: disable_all_healthy[OF 1 5 2 3] 4)
  have c: "othersOf (snd (disableNotifications None hugeNumberDisk)) = [(''big'', JNull)]"
    by (simp add: disable_all_healthy[OF 1 5 2 3] othersOf_def others_cleanUp ro)
  show ?thesis using big a b c by - (elim conjE, (intro conjI; assumption))
qed

section \<open>Running an operation twice\<close>

text \<open>
  Claim C7. From any state of the two files, a second \<^verbatim>\<open>enableNotifications\<close> call with
  the same argument (one event, or none) leaves both files exactly as the first call left
  them, so the \<^verbatim>\<open>hooks\<close> content restored from a backup is the same after one call and
  after several; and a second \<^verbatim>\<open>disableNotifications()\<close> leaves both files exactly as the
  first call left them.
\<close>

theorem enable_disable_idempotent:
  "snd (enableNotifications event (snd (enableNotifications event d)))
     = snd (enableNotifications event d)
   \<and> snd (disableNotifications None (snd (disableNotifications None d)))
     = snd (disableNotifications None d)"
  using enable_twice[of event d] disable_twice[of d] by simp

theorem enable_disable_idempotent_witness:
  "snd (enableNotifications None (snd (enableNotifications None disabledDisk)))
     = snd (enableNotifications None disabledDisk)
   \<and> snd (disableNotifications None (snd (disableNotifications None disabledDisk)))
     = snd (disableNotifications None disabledDisk)
   \<and> snd (enableNotifications None disabledDisk) \<noteq> disabledDisk"
proof -
  have "snd (enableNotifications None disabledDisk) \<noteq> disabledDisk" by code_simp
  then show ?thesis using enable_disable_idempotent[of None disabledDisk] by simp
qed

section \<open>Enable reads the backup and never writes it\<close>

text \<open>
  Claim C9. \<^verbatim>\<open>enableNotifications\<close>, with an event or without, on any state of the two
  files and whatever it reports, leaves the backup file as it was: missing, unreadable,
  or holding the same document.
\<close>

theorem enable_keeps_backup:
  "backupFile (snd (enableNotifications event d)) = backupFile d"
  by (simp add: enable_cases split: stored.splits sum.splits option.splits jsval.splits)

theorem enable_keeps_backup_witness:
  "backupFile (snd (enableNotifications (Some ''Stop'') disabledDisk)) = Holds [(''Stop'', stopEntry)]
   \<and> fst (enableNotifications (Some ''Stop'') disabledDisk) = Inr (EventEnabled ''Stop'')"
proof -
  have a: "fst (enableNotifications (Some ''Stop'') disabledDisk) = Inr (EventEnabled ''Stop'')"
    by code_simp
  have b: "backupFile disabledDisk = Holds [(''Stop'', stopEntry)]" by code_simp
  show ?thesis using enable_keeps_backup[of "Some ''Stop''" disabledDisk] a b by simp
qed

section \<open>Fatal errors\<close>

text \<open>
  Claim C3, amended. An error that comes before the first write of an operation (the
  platform is not supported, the settings file cannot be read) leaves both files as they
  were. The settings write is the last step of an operation, but not its only mutation:
  \<^verbatim>\<open>setupNotification\<close> and \<^verbatim>\<open>disableNotifications\<close> write the backup file first, and
  \<^verbatim>\<open>removeNotification\<close> deletes it first. So when \<^verbatim>\<open>setupNotification\<close> fails because the
  sound is not found, or when a write fails, the settings file is as it was, unless the
  failing write is the settings write and it left a file that does not parse; and the
  backup file is as it was, or holds the snapshot of the managed entries of the current
  settings, or was left broken by the failing backup write, or, for
  \<^verbatim>\<open>removeNotification\<close>, is deleted. \<^verbatim>\<open>enableNotifications\<close> never touches the backup file.
\<close>

theorem fatal_error_effects:
  "(fst (setupNotification e event p n d) = Inl err \<longrightarrow>
        (settingsFile (snd (setupNotification e event p n d)) = settingsFile d
          \<or> (err = IoError \<and> settingsWrite d = Truncates
              \<and> settingsFile (snd (setupNotification e event p n d)) = Unreadable))
      \<and> (err \<noteq> IoError \<longrightarrow> (\<forall>sp. err \<noteq> SoundNotFound sp) \<longrightarrow>
            snd (setupNotification e event p n d) = d)
      \<and> (backupFile (snd (setupNotification e event p n d)) = backupFile d
         \<or> (backupWrite d = Truncates
             \<and> backupFile (snd (setupNotification e event p n d)) = Unreadable)
         \<or> (\<exists>s h. settingsFile d = Holds s \<and> hooks s = Some h
              \<and> backupFile (snd (setupNotification e event p n d))
                  = Holds (reserialiseObj (snapshot h)))))
   \<and> (fst (enableNotifications ev d) = Inl err \<longrightarrow>
        (settingsFile (snd (enableNotifications ev d)) = settingsFile d
          \<or> (err = IoError \<and> settingsWrite d = Truncates
              \<and> settingsFile (snd (enableNotifications ev d)) = Unreadable))
      \<and> (err \<noteq> IoError \<longrightarrow> snd (enableNotifications ev d) = d)
      \<and> backupFile (snd (enableNotifications ev d)) = backupFile d)
   \<and> (fst (disableNotifications ev d) = Inl err \<longrightarrow>
        (settingsFile (snd (disableNotifications ev d)) = settingsFile d
          \<or> (err = IoError \<and> settingsWrite d = Truncates
              \<and> settingsFile (snd (disableNotifications ev d)) = Unreadable))
      \<and> (err \<noteq> IoError \<longrightarrow> snd (disableNotifications ev d) = d)
      \<and> (backupFile (snd (disableNotifications ev d)) = backupFile d
         \<or> (backupWrite d = Truncates
             \<and> backupFile (snd (disableNotifications ev d)) = Unreadable)
         \<or> (\<exists>s h. settingsFile d = Holds s \<and> hooks s = Some h
              \<and> backupFile (snd (disableNotifications ev d))
                  = Holds (reserialiseObj (snapshot h)))))
   \<and> (fst (removeNotification event d) = Inl err \<longrightarrow>
        (settingsFile (snd (removeNotification event d)) = settingsFile d
          \<or> (err = IoError \<and> settingsWrite d = Truncates
              \<and> settingsFile (snd (removeNotification event d)) = Unreadable))
      \<and> (err \<noteq> IoError \<longrightarrow> snd (removeNotification event d) = d)
      \<and> (backupFile (snd (removeNotification event d)) = backupFile d
         \<or> (backupUnlink d \<and> backupFile (snd (removeNotification event d)) = Missing)))"
proof -
  have b: "backupFile (snd (backupCurrentConfig d)) = backupFile d
     \<or> (backupWrite d = Truncates \<and> backupFile (snd (backupCurrentConfig d)) = Unreadable)
     \<or> (\<exists>s h. settingsFile d = Holds s \<and> hooks s = Some h
          \<and> backupFile (snd (backupCurrentConfig d)) = Holds (reserialiseObj (snapshot h)))"
    using backup_backupFile[of d] by blast
  have 1: "fst (setupNotification e event p n d) = Inl err \<longrightarrow>
        (settingsFile (snd (setupNotification e event p n d)) = settingsFile d
          \<or> (err = IoError \<and> settingsWrite d = Truncates
              \<and> settingsFile (snd (setupNotification e event p n d)) = Unreadable))
      \<and> (err \<noteq> IoError \<longrightarrow> (\<forall>sp. err \<noteq> SoundNotFound sp) \<longrightarrow>
            snd (setupNotification e event p n d) = d)
      \<and> (backupFile (snd (setupNotification e event p n d)) = backupFile d
         \<or> (backupWrite d = Truncates
             \<and> backupFile (snd (setupNotification e event p n d)) = Unreadable)
         \<or> (\<exists>s h. settingsFile d = Holds s \<and> hooks s = Some h
              \<and> backupFile (snd (setupNotification e event p n d))
                  = Holds (reserialiseObj (snapshot h))))"
  proof
    assume a: "fst (setupNotification e event p n d) = Inl err"
    note x = setup_error[OF a]
    from x have "backupFile (snd (setupNotification e event p n d)) = backupFile d
        \<or> backupFile (snd (setupNotification e event p n d))
            = backupFile (snd (backupCurrentConfig d))" by simp
    then have "backupFile (snd (setupNotification e event p n d)) = backupFile d
         \<or> (backupWrite d = Truncates
             \<and> backupFile (snd (setupNotification e event p n d)) = Unreadable)
         \<or> (\<exists>s h. settingsFile d = Holds s \<and> hooks s = Some h
              \<and> backupFile (snd (setupNotification e event p n d))
                  = Holds (reserialiseObj (snapshot h)))"
      using b by metis
    then show "(settingsFile (snd (setupNotification e event p n d)) = settingsFile d
          \<or> (err = IoError \<and> settingsWrite d = Truncates
              \<and> settingsFile (snd (setupNotification e event p n d)) = Unreadable))
      \<and> (err \<noteq> IoError \<longrightarrow> (\<forall>sp. err \<noteq> SoundNotFound sp) \<longrightarrow>
            snd (setupNotification e event p n d) = d)
      \<and> (backupFile (snd (setupNotification e event p n d)) = backupFile d
         \<or> (backupWrite d = Truncates
             \<and> backupFile (snd (setupNotification e event p n d)) = Unreadable)
         \<or> (\<exists>s h. settingsFile d = Holds s \<and> hooks s = Some h
              \<and> backupFile (snd (setupNotification e event p n d))
                  = Holds (reserialiseObj (snapshot h))))"
      using x by blast
  qed
  have 2: "fst (enableNotifications ev d) = Inl err \<longrightarrow>
        (settingsFile (snd (enableNotifications ev d)) = settingsFile d
          \<or> (err = IoError \<and> settingsWrite d = Truncates
              \<and> settingsFile (snd (enableNotifications ev d)) = Unreadable))
      \<and> (err \<noteq> IoError \<longrightarrow> snd (enableNotifications ev d) = d)
      \<and> backupFile (snd (enableNotifications ev d)) = backupFile d"
    using enable_error[of ev d err] enable_backup_frame[of ev d] by blast
  have 3: "fst (disableNotifications ev d) = Inl err \<longrightarrow>
        (settingsFile (snd (disableNotifications ev d)) = settingsFile d
          \<or> (err = IoError \<and> settingsWrite d = Truncates
              \<and> settingsFile (snd (disableNotifications ev d)) = Unreadable))
      \<and> (err \<noteq> IoError \<longrightarrow> snd (disableNotifications ev d) = d)
      \<and> (backupFile (snd (disableNotifications ev d)) = backupFile d
         \<or> (backupWrite d = Truncates
             \<and> backupFile (snd (disableNotifications ev d)) = Unreadable)
         \<or> (\<exists>s h. settingsFile d = Holds s \<and> hooks s = Some h
              \<and> backupFile (snd (disableNotifications ev d))
                  = Holds (reserialiseObj (snapshot h))))"
  proof
    assume a: "fst (disableNotifications ev d) = Inl err"
    note x = disable_error[OF a]
    from x have "backupFile (snd (disableNotifications ev d)) = backupFile d
        \<or> backupFile (snd (disableNotifications ev d))
            = backupFile (snd (backupCurrentConfig d))" by simp
    then have "backupFile (snd (disableNotifications ev d)) = backupFile d
         \<or> (backupWrite d = Truncates
             \<and> backupFile (snd (disableNotifications ev d)) = Unreadable)
         \<or> (\<exists>s h. settingsFile d = Holds s \<and> hooks s = Some h
              \<and> backupFile (snd (disableNotifications ev d))
                  = Holds (reserialiseObj (snapshot h)))"
      using b by metis
    then show "(settingsFile (snd (disableNotifications ev d)) = settingsFile d
          \<or> (err = IoError \<and> settingsWrite d = Truncates
              \<and> settingsFile (snd (disableNotifications ev d)) = Unreadable))
      \<and> (err \<noteq> IoError \<longrightarrow> snd (disableNotifications ev d) = d)
      \<and> (backupFile (snd (disableNotifications ev d)) = backupFile d
         \<or> (backupWrite d = Truncates
             \<and> backupFile (snd (disableNotifications ev d)) = Unreadable)
         \<or> (\<exists>s h. settingsFile d = Holds s \<and> hooks s = Some h
              \<and> backupFile (snd (disableNotifications ev d))
                  = Holds (reserialiseObj (snapshot h))))"
      using x by blast
  qed
  have 4: "fst (removeNotification event d) = Inl err \<longrightarrow>
        (settingsFile (snd (removeNotification event d)) = settingsFile d
          \<or> (err = IoError \<and> settingsWrite d = Truncates
              \<and> settingsFile (snd (removeNotification event d)) = Unreadable))
      \<and> (err \<noteq> IoError \<longrightarrow> snd (removeNotification event d) = d)
      \<and> (backupFile (snd (removeNotification event d)) = backupFile d
         \<or> (backupUnlink d \<and> backupFile (snd (removeNotification event d)) = Missing))"
    using remove_error[of event d err] by blast
  show ?thesis using 1 2 3 4 by (intro conjI)
qed

theorem fatal_error_effects_witness:
  "fst (disableNotifications None readOnlySettingsDisk) = Inl IoError
   \<and> settingsFile (snd (disableNotifications None readOnlySettingsDisk))
       = settingsFile readOnlySettingsDisk
   \<and> fst (removeNotification ''Stop'' unreadableDisk) = Inl SettingsUnreadable
   \<and> snd (removeNotification ''Stop'' unreadableDisk) = unreadableDisk"
proof -
  have a: "fst (disableNotifications None readOnlySettingsDisk) = Inl IoError" by code_simp
  have t: "settingsWrite readOnlySettingsDisk \<noteq> Truncates" by code_simp
  have b: "fst (removeNotification ''Stop'' unreadableDisk) = Inl SettingsUnreadable"
    by code_simp
  show ?thesis
    using a t b
      fatal_error_effects[where ev = None and d = readOnlySettingsDisk and err = IoError]
      fatal_error_effects[where event = "''Stop''" and d = unreadableDisk
        and err = SettingsUnreadable]
    by simp
qed

text \<open>
  The claim as stated fails. With a managed event configured and no backup file, a setup
  that cannot find its sound ends with the error and has created the backup file. On a
  file system that refuses the settings write, \<^verbatim>\<open>disableNotifications()\<close> ends with the
  error after it has overwritten the older backup, and \<^verbatim>\<open>removeNotification\<close> after it
  has deleted it.
\<close>

theorem setup_error_after_backup_counterexample:
  "fst (setupNotification noSoundEnv ''Stop'' (Some ''nope'') False exampleDisk)
     = Inl (SoundNotFound ''nope'')
   \<and> backupFile exampleDisk = Missing
   \<and> backupFile (snd (setupNotification noSoundEnv ''Stop'' (Some ''nope'') False exampleDisk))
     = Holds [(''Stop'', stopEntry)]
   \<and> backupFile readOnlySettingsDisk = Holds [(''Notification'', stopEntry)]
   \<and> fst (disableNotifications None readOnlySettingsDisk) = Inl IoError
   \<and> backupFile (snd (disableNotifications None readOnlySettingsDisk))
     = Holds [(''Stop'', stopEntry)]
   \<and> fst (removeNotification ''Stop'' readOnlySettingsDisk) = Inl IoError
   \<and> backupFile (snd (removeNotification ''Stop'' readOnlySettingsDisk)) = Missing"
  by code_simp

section \<open>Status\<close>

text \<open>
  Claim C8, amended. On readable settings, \<^verbatim>\<open>getStatus\<close> prints the ENABLED line exactly
  when at least one managed event is present in the \<^verbatim>\<open>hooks\<close> mapping (with a truthy
  value); otherwise it prints the DISABLED line exactly when the backup file exists and
  parses, also when the object in it is empty, and lists the keys of that object; in all
  remaining cases it prints NOT CONFIGURED.
\<close>

theorem getStatus_headline:
  assumes "readSettings d = Inr s"
  shows "((\<exists>n ls. fst (getStatus d) = StatusEnabled n # ls)
            = (\<exists>h e. hooks s = Some h \<and> e \<in> set eventNames \<and> ownTruthy h e))
       \<and> ((\<exists>n ks. getStatus d = ([StatusDisabled n, EventsLine ks], None))
            = (configuredEvents s = [] \<and> (\<exists>b. backupFile d = Holds b)))
       \<and> (configuredEvents s = [] \<and> backupFile d = Holds b
            \<longrightarrow> getStatus d = ([StatusDisabled (length b), EventsLine (map fst b)], None))
       \<and> ((getStatus d = ([StatusNotConfigured], None))
            = (configuredEvents s = [] \<and> (\<forall>b. backupFile d \<noteq> Holds b)))"
  unfolding configured_iff[symmetric]
  by (auto simp: getStatus_cases[OF assms] split: stored.splits)

theorem getStatus_headline_witness:
  "readSettings disabledDisk
     = Inr \<lparr>hooks = Some [(''Custom'', customEntry)], others = [(''model'', JStr ''opus'')]\<rparr>
   \<and> getStatus disabledDisk = ([StatusDisabled 1, EventsLine [''Stop'']], None)"
proof -
  let ?s = "\<lparr>hooks = Some [(''Custom'', customEntry)], others = [(''model'', JStr ''opus'')]\<rparr>"
  have r: "readSettings disabledDisk = Inr ?s" by code_simp
  have c: "configuredEvents ?s = []" by code_simp
  have b: "backupFile disabledDisk = Holds [(''Stop'', stopEntry)]" by code_simp
  show ?thesis
    using getStatus_headline[OF r, of "[(''Stop'', stopEntry)]"] r c b by simp
qed

text \<open>
  The claim as stated fails on an empty backup object: the status is DISABLED with no
  event to re-enable, not NOT CONFIGURED.
\<close>

theorem getStatus_empty_backup_counterexample:
  "getStatus emptyBackupDisk = ([StatusDisabled 0, EventsLine []], None)
   \<and> getStatus emptyBackupDisk \<noteq> ([StatusNotConfigured], None)"
  by code_simp

section \<open>Remove\<close>

text \<open>
  Claim C4 says that after \<^verbatim>\<open>removeNotification(event)\<close> the status never reports the
  event as enabled or as recoverable from the backup, and that the backup file is absent.
  The code returns at once when the event has no entry in the settings, before the line
  that deletes the backup file. After \<^verbatim>\<open>ccnudge stop\<close> the event is in the backup only,
  so removing it changes nothing: the backup file is still there and the status still
  lists the event as one that can be re-enabled.
\<close>

theorem remove_after_disable_keeps_backup:
  "removeNotification ''Stop'' disabledDisk = (Inr (NotConfiguredFor ''Stop''), disabledDisk)
   \<and> backupFile disabledDisk = Holds [(''Stop'', stopEntry)]
   \<and> getStatus disabledDisk = ([StatusDisabled 1, EventsLine [''Stop'']], None)"
  by code_simp

text \<open>
  When the managed event does have an entry in the settings, the call returns normally
  and the file system lets the backup file be deleted (the code ignores a failing
  \<^verbatim>\<open>unlink\<close>), the removal is final: the backup file is gone, and the status neither
  reports the event nor lists it as one to re-enable.
\<close>

lemma remove_configured_final:
  assumes "event \<in> set eventNames"
    and "removeNotification event d = (Inr (Removed x), d')"
    and "backupUnlink d"
  shows "backupFile d' = Missing
       \<and> EventLine event \<notin> set (fst (getStatus d'))
       \<and> (\<forall>ks. EventsLine ks \<notin> set (fst (getStatus d')))"
proof -
  from assms(2) have f: "fst (removeNotification event d) = Inr (Removed x)"
    and sd: "snd (removeNotification event d) = d'" by simp_all
  from f obtain s where s: "readSettings d = Inr s"
    by (cases "readSettings d") (simp_all add: remove_cases)
  from f have c: "hooks s \<noteq> None \<and> truthyVal (getProp (hooksOrEmpty s) event)"
    by (simp add: remove_cases s split: if_splits)
  from f c have w: "settingsWrite d = Succeeds"
    by (simp add: remove_cases s fst_reported_Inr writeSettings_Inr)
  from sd c have d': "d' = snd (writeSettings (cleanUp s (deleteProp (hooksOrEmpty s) event))
                        (unlinkBackup d))"
    by (simp add: remove_cases s)
  let ?s' = "reserialiseSettings (cleanUp s (deleteProp (hooksOrEmpty s) event))"
  have d'': "d' = (unlinkBackup d)\<lparr>settingsFile := Holds ?s'\<rparr>"
    using w by (simp add: d' writeSettings_Succeeds)
  have rs: "readSettings d' = Inr ?s'" by (simp add: d'' readSettings_def)
  have bf: "backupFile d' = Missing" using assms(3) by (simp add: d'' unlinkBackup_def)
  have gone: "map_of (hooksOrEmpty ?s') event = None"
    by (simp add: hooksOrEmpty_cleanUp deleteProp_def delete_conv' map_of_reserialiseObj)
  have nc: "event \<notin> set (configuredEvents ?s')"
  proof (cases "hooks ?s'")
    case None
    then show ?thesis by (simp add: configuredEvents_no_hooks)
  next
    case (Some h')
    then have "hooksOrEmpty ?s' = h'" by (auto simp: hooksOrEmpty_def)
    then show ?thesis using gone by (simp add: set_configuredEvents[OF Some] ownTruthy_def)
  qed
  have "l \<in> set (fst (getStatus d')) \<Longrightarrow> l \<noteq> EventLine event \<and> (\<forall>ks. l \<noteq> EventsLine ks)" for l
    using reportEvents_lines[of l "hooksOrEmpty ?s'" "configuredEvents ?s'"] nc bf
    by (auto simp: getStatus_cases[OF rs] split: if_splits)
  then show ?thesis using bf by blast
qed

section \<open>Keys that are not managed\<close>

text \<open>
  Claim C2, amended. Let \<open>k\<close> be a name outside the event list, and let an operation
  return normally (\<^verbatim>\<open>getStatus\<close> writes nothing). Whatever its arguments, every top-level
  key other than \<^verbatim>\<open>hooks\<close> then has in the settings file the value it had, or that value
  as \<^verbatim>\<open>JSON.stringify\<close> writes it after \<^verbatim>\<open>JSON.parse\<close>, which is the same value when every
  numeral in it is a double. So has the entry of \<^verbatim>\<open>hooks\<close> under \<open>k\<close>, provided \<open>k\<close> is not
  the event the operation was called with, and, for \<^verbatim>\<open>enableNotifications\<close> without an
  event, provided \<open>k\<close> is not a key of the backup document. (No operation checks its
  event argument against the event list.) When the operation ends with an error, the
  keys are as they were, unless the error is that of a settings write that left a file
  which does not parse.
\<close>

theorem unmanaged_keys_kept:
  assumes "k \<notin> set eventNames"
  shows "(fst (setupNotification e event p n d) = Inr ms \<longrightarrow>
            othersOf (snd (setupNotification e event p n d)) = reserialiseObj (othersOf d)
          \<and> (event \<noteq> k \<longrightarrow>
               hooksAt (snd (setupNotification e event p n d)) k
                 = map_option reserialise (hooksAt d k)))
       \<and> (fst (enableNotifications ev d) = Inr me \<longrightarrow>
            (othersOf (snd (enableNotifications ev d)) = othersOf d
              \<or> othersOf (snd (enableNotifications ev d)) = reserialiseObj (othersOf d))
          \<and> (eventArg ev \<noteq> Some k \<longrightarrow>
               (eventArg ev = None \<longrightarrow> (\<forall>b. backupFile d = Holds b \<longrightarrow> k \<notin> fst ` set b)) \<longrightarrow>
               hooksAt (snd (enableNotifications ev d)) k = hooksAt d k
               \<or> hooksAt (snd (enableNotifications ev d)) k
                   = map_option reserialise (hooksAt d k)))
       \<and> (fst (disableNotifications ev d) = Inr md \<longrightarrow>
            (othersOf (snd (disableNotifications ev d)) = othersOf d
              \<or> othersOf (snd (disableNotifications ev d)) = reserialiseObj (othersOf d))
          \<and> (eventArg ev \<noteq> Some k \<longrightarrow>
               hooksAt (snd (disableNotifications ev d)) k = hooksAt d k
               \<or> hooksAt (snd (disableNotifications ev d)) k
                   = map_option reserialise (hooksAt d k)))
       \<and> (fst (removeNotification event d) = Inr mr \<longrightarrow>
            (othersOf (snd (removeNotification event d)) = othersOf d
              \<or> othersOf (snd (removeNotification event d)) = reserialiseObj (othersOf d))
          \<and> (event \<noteq> k \<longrightarrow>
               hooksAt (snd (removeNotification event d)) k = hooksAt d k
               \<or> hooksAt (snd (removeNotification event d)) k
                   = map_option reserialise (hooksAt d k)))
       \<and> (list_all (\<lambda>(k, w). doubleNumbers w) (othersOf d) \<longrightarrow>
            reserialiseObj (othersOf d) = othersOf d)
       \<and> (\<forall>w. hooksAt d k = Some w \<longrightarrow> doubleNumbers w \<longrightarrow>
            map_option reserialise (hooksAt d k) = hooksAt d k)
       \<and> (fst (setupNotification e event p n d) = Inl err \<longrightarrow>
            (othersOf (snd (setupNotification e event p n d)) = othersOf d
              \<and> hooksAt (snd (setupNotification e event p n d)) k = hooksAt d k)
            \<or> (err = IoError \<and> settingsWrite d = Truncates
                \<and> settingsFile (snd (setupNotification e event p n d)) = Unreadable))
       \<and> (fst (enableNotifications ev d) = Inl err \<longrightarrow>
            (othersOf (snd (enableNotifications ev d)) = othersOf d
              \<and> hooksAt (snd (enableNotifications ev d)) k = hooksAt d k)
            \<or> (err = IoError \<and> settingsWrite d = Truncates
                \<and> settingsFile (snd (enableNotifications ev d)) = Unreadable))
       \<and> (fst (disableNotifications ev d) = Inl err \<longrightarrow>
            (othersOf (snd (disableNotifications ev d)) = othersOf d
              \<and> hooksAt (snd (disableNotifications ev d)) k = hooksAt d k)
            \<or> (err = IoError \<and> settingsWrite d = Truncates
                \<and> settingsFile (snd (disableNotifications ev d)) = Unreadable))
       \<and> (fst (removeNotification event d) = Inl err \<longrightarrow>
            (othersOf (snd (removeNotification event d)) = othersOf d
              \<and> hooksAt (snd (removeNotification event d)) k = hooksAt d k)
            \<or> (err = IoError \<and> settingsWrite d = Truncates
                \<and> settingsFile (snd (removeNotification event d)) = Unreadable))"
proof -
  have kc: "k \<notin> set (configuredEvents s)" for s
    using assms configuredEvents_subset by blast
  have same: "hooksAt d' k = hooksAt d k \<and> othersOf d' = othersOf d"
    if "settingsFile d' = settingsFile d" for d'
    using that by (simp add: hooksAt_def othersOf_def)
  have 1: "othersOf (snd (setupNotification e event p n d)) = reserialiseObj (othersOf d)
      \<and> (event \<noteq> k \<longrightarrow>
           hooksAt (snd (setupNotification e event p n d)) k
             = map_option reserialise (hooksAt d k))"
    if a: "fst (setupNotification e event p n d) = Inr ms"
  proof -
    have "setupNotification e event p n d = (Inr ms, snd (setupNotification e event p n d))"
      using a by (metis prod.collapse)
    from setup_success[OF this] obtain c s where
      s: "readSettings d = Inr s"
      and d': "snd (setupNotification e event p n d)
                 = (snd (backupCurrentConfig d))
                    \<lparr>settingsFile := Holds (reserialiseSettings
                       (s\<lparr>hooks := Some (setProp (hooksOrEmpty s) event
                                           (hookGroups (buildHooks e c n)))\<rparr>))\<rparr>"
      by blast
    show ?thesis
      by (simp add: d' hooksAt_def othersOf_def readSettings_hooksAt[OF s, unfolded hooksAt_def]
          readSettings_othersOf[OF s, unfolded othersOf_def] map_of_reserialiseObj
          map_of_setProp_other)
  qed
  have 2: "(othersOf (snd (enableNotifications ev d)) = othersOf d
              \<or> othersOf (snd (enableNotifications ev d)) = reserialiseObj (othersOf d))
          \<and> (eventArg ev \<noteq> Some k \<longrightarrow>
               (eventArg ev = None \<longrightarrow> (\<forall>b. backupFile d = Holds b \<longrightarrow> k \<notin> fst ` set b)) \<longrightarrow>
               hooksAt (snd (enableNotifications ev d)) k = hooksAt d k
               \<or> hooksAt (snd (enableNotifications ev d)) k
                   = map_option reserialise (hooksAt d k))"
    if a: "fst (enableNotifications ev d) = Inr me"
    using enable_normal[OF a]
    by (auto simp: hooksAt_Holds othersOf_Holds readSettings_hooksAt readSettings_othersOf
        map_of_reserialiseObj map_of_setProp_other map_of_setInherited_other objectAssign_other)
  have 3: "(othersOf (snd (disableNotifications ev d)) = othersOf d
              \<or> othersOf (snd (disableNotifications ev d)) = reserialiseObj (othersOf d))
          \<and> (eventArg ev \<noteq> Some k \<longrightarrow>
               hooksAt (snd (disableNotifications ev d)) k = hooksAt d k
               \<or> hooksAt (snd (disableNotifications ev d)) k
                   = map_option reserialise (hooksAt d k))"
    if a: "fst (disableNotifications ev d) = Inr md"
    using disable_normal[OF a] kc same[of "snd (disableNotifications ev d)"]
    by (auto simp: hooksAt_Holds othersOf_Holds readSettings_hooksAt readSettings_othersOf
        hooksOrEmpty_cleanUp others_cleanUp map_of_reserialiseObj map_of_deleteAll
        map_of_deleteProp)
  have 4: "(othersOf (snd (removeNotification event d)) = othersOf d
              \<or> othersOf (snd (removeNotification event d)) = reserialiseObj (othersOf d))
          \<and> (event \<noteq> k \<longrightarrow>
               hooksAt (snd (removeNotification event d)) k = hooksAt d k
               \<or> hooksAt (snd (removeNotification event d)) k
                   = map_option reserialise (hooksAt d k))"
    if a: "fst (removeNotification event d) = Inr mr"
    using remove_normal[OF a] same[of "snd (removeNotification event d)"]
    by (auto simp: hooksAt_Holds othersOf_Holds readSettings_hooksAt readSettings_othersOf
        hooksOrEmpty_cleanUp others_cleanUp map_of_reserialiseObj map_of_deleteProp)
  have 5: "list_all (\<lambda>(k, w). doubleNumbers w) (othersOf d) \<longrightarrow>
            reserialiseObj (othersOf d) = othersOf d"
    by (simp add: reserialiseObj_fixed)
  have 6: "\<forall>w. hooksAt d k = Some w \<longrightarrow> doubleNumbers w \<longrightarrow>
            map_option reserialise (hooksAt d k) = hooksAt d k"
    by (simp add: reserialise_fixed)
  have 7: "(othersOf (snd (setupNotification e event p n d)) = othersOf d
              \<and> hooksAt (snd (setupNotification e event p n d)) k = hooksAt d k)
            \<or> (err = IoError \<and> settingsWrite d = Truncates
                \<and> settingsFile (snd (setupNotification e event p n d)) = Unreadable)"
    if a: "fst (setupNotification e event p n d) = Inl err"
    using setup_error[OF a] same[of "snd (setupNotification e event p n d)"] by blast
  have 8: "(othersOf (snd (enableNotifications ev d)) = othersOf d
              \<and> hooksAt (snd (enableNotifications ev d)) k = hooksAt d k)
            \<or> (err = IoError \<and> settingsWrite d = Truncates
                \<and> settingsFile (snd (enableNotifications ev d)) = Unreadable)"
    if a: "fst (enableNotifications ev d) = Inl err"
    using enable_error[OF a] same[of "snd (enableNotifications ev d)"] by blast
  have 9: "(othersOf (snd (disableNotifications ev d)) = othersOf d
              \<and> hooksAt (snd (disableNotifications ev d)) k = hooksAt d k)
            \<or> (err = IoError \<and> settingsWrite d = Truncates
                \<and> settingsFile (snd (disableNotifications ev d)) = Unreadable)"
    if a: "fst (disableNotifications ev d) = Inl err"
    using disable_error[OF a] same[of "snd (disableNotifications ev d)"] by blast
  have 10: "(othersOf (snd (removeNotification event d)) = othersOf d
              \<and> hooksAt (snd (removeNotification event d)) k = hooksAt d k)
            \<or> (err = IoError \<and> settingsWrite d = Truncates
                \<and> settingsFile (snd (removeNotification event d)) = Unreadable)"
    if a: "fst (removeNotification event d) = Inl err"
    using remove_error[OF a] same[of "snd (removeNotification event d)"] by blast
  show ?thesis
    using impI[OF 1] impI[OF 2] impI[OF 3] impI[OF 4] 5 6
      impI[OF 7] impI[OF 8] impI[OF 9] impI[OF 10]
    by - (intro conjI; assumption)
qed

theorem unmanaged_keys_kept_witness:
  "''Custom'' \<notin> set eventNames
   \<and> fst (removeNotification ''Stop'' exampleDisk) = Inr (Removed ''Stop'')
   \<and> hooksAt exampleDisk ''Custom'' = Some customEntry
   \<and> hooksAt (snd (removeNotification ''Stop'' exampleDisk)) ''Custom'' = Some customEntry
   \<and> othersOf (snd (removeNotification ''Stop'' exampleDisk)) = [(''model'', JStr ''opus'')]"
proof -
  have k: "''Custom'' \<notin> set eventNames" by (simp add: eventNames_eq)
  have r: "fst (removeNotification ''Stop'' exampleDisk) = Inr (Removed ''Stop'')"
    by code_simp
  have a: "hooksAt exampleDisk ''Custom'' = Some customEntry" by code_simp
  have b: "othersOf exampleDisk = [(''model'', JStr ''opus'')]" by code_simp
  have c: "''Stop'' \<noteq> ''Custom''" by simp
  have f: "reserialise customEntry = customEntry" by code_simp
  have g: "reserialiseObj [(''model'', JStr ''opus'')] = [(''model'', JStr ''opus'')]"
    by code_simp
  note t = unmanaged_keys_kept[OF k, where event = "''Stop''" and d = exampleDisk
      and mr = "Removed ''Stop''", THEN conjunct2, THEN conjunct2, THEN conjunct2,
      THEN conjunct1, rule_format, OF r]
  from t c a b f g show ?thesis using k r by auto
qed

text \<open>
  The claim as stated fails in three ways. Called with the unmanaged name itself,
  \<^verbatim>\<open>removeNotification\<close> deletes the entry of the host application under that name. A
  numeral that no double holds is written back changed by any operation that writes:
  \<open>2 ^ 53 + 1\<close> becomes \<open>2 ^ 53\<close>. And a settings write that breaks off leaves a file from
  which no key can be read.
\<close>

theorem unmanaged_keys_changed_counterexample:
  "''Custom'' \<notin> set eventNames
   \<and> hooksAt exampleDisk ''Custom'' = Some customEntry
   \<and> hooksAt (snd (removeNotification ''Custom'' exampleDisk)) ''Custom'' = None
   \<and> othersOf bigNumberDisk = [(''big'', JNum 9007199254740993)]
   \<and> fst (disableNotifications None bigNumberDisk) = Inr (AllDisabled 1)
   \<and> othersOf (snd (disableNotifications None bigNumberDisk))
       = [(''big'', JNum 9007199254740992)]
   \<and> othersOf truncatingDisk = [(''model'', JStr ''opus'')]
   \<and> fst (disableNotifications None truncatingDisk) = Inl IoError
   \<and> settingsFile (snd (disableNotifications None truncatingDisk)) = Unreadable
   \<and> othersOf (snd (disableNotifications None truncatingDisk)) = []"
  by code_simp

section \<open>The hooks key after a write\<close>

text \<open>
  Claim C5, amended. When \<^verbatim>\<open>disableNotifications\<close> or \<^verbatim>\<open>removeNotification\<close> has removed
  an entry, the document it writes holds under \<^verbatim>\<open>hooks\<close> exactly the keys it did not
  remove (all configured managed events for a call without an event, the named event
  otherwise), each with its value as \<^verbatim>\<open>JSON.stringify\<close> writes it; the \<^verbatim>\<open>hooks\<close> key is
  deleted when no key, of any name and whatever its value, is left, and kept otherwise,
  so that an empty \<^verbatim>\<open>hooks\<close> mapping is never written. When they report that nothing was
  to do, the settings file is untouched. A \<^verbatim>\<open>setupNotification\<close> that returns normally,
  for an event other than \<^verbatim>\<open>__proto__\<close>, writes a \<^verbatim>\<open>hooks\<close> mapping that holds the new
  entry under the event and the other keys as before. (\<^verbatim>\<open>enableNotifications\<close> has no
  clean-up step and writes the mapping as the merge leaves it.)
\<close>

theorem hooks_key_cleanup:
  "(fst (disableNotifications ev d) = Inr (AllDisabled c) \<longrightarrow>
       (\<exists>s s'. readSettings d = Inr s
          \<and> settingsFile (snd (disableNotifications ev d)) = Holds s'
          \<and> hooks s' \<noteq> Some []
          \<and> ((hooks s' = None) = (\<forall>k. map_of (hooksOrEmpty s') k = None))
          \<and> (\<forall>k. map_of (hooksOrEmpty s') k
                 = (if k \<in> set (configuredEvents s) then None
                    else map_option reserialise (map_of (hooksOrEmpty s) k)))))
   \<and> (fst (disableNotifications ev d) = Inr (EventDisabled x) \<longrightarrow>
       (\<exists>s s'. readSettings d = Inr s
          \<and> settingsFile (snd (disableNotifications ev d)) = Holds s'
          \<and> hooks s' \<noteq> Some []
          \<and> ((hooks s' = None) = (\<forall>k. map_of (hooksOrEmpty s') k = None))
          \<and> (\<forall>k. map_of (hooksOrEmpty s') k
                 = (if k = x then None
                    else map_option reserialise (map_of (hooksOrEmpty s) k)))))
   \<and> ((fst (disableNotifications ev d) = Inr NothingConfigured
      \<or> fst (disableNotifications ev d) = Inr (NotConfiguredFor x)) \<longrightarrow>
       settingsFile (snd (disableNotifications ev d)) = settingsFile d)
   \<and> (fst (removeNotification event d) = Inr (Removed x) \<longrightarrow>
       (\<exists>s s'. readSettings d = Inr s
          \<and> settingsFile (snd (removeNotification event d)) = Holds s'
          \<and> hooks s' \<noteq> Some []
          \<and> ((hooks s' = None) = (\<forall>k. map_of (hooksOrEmpty s') k = None))
          \<and> (\<forall>k. map_of (hooksOrEmpty s') k
                 = (if k = event then None
                    else map_option reserialise (map_of (hooksOrEmpty s) k)))))
   \<and> (fst (removeNotification event d) = Inr (NotConfiguredFor x) \<longrightarrow>
       settingsFile (snd (removeNotification event d)) = settingsFile d)
   \<and> (fst (setupNotification e event p n d) = Inr m \<longrightarrow> event \<noteq> ''__proto__'' \<longrightarrow>
       (\<exists>s s' h' c. readSettings d = Inr s
          \<and> settingsFile (snd (setupNotification e event p n d)) = Holds s'
          \<and> hooks s' = Some h'
          \<and> (\<forall>k. map_of h' k
                 = (if k = event then Some (hookGroups (buildHooks e c n))
                    else map_option reserialise (map_of (hooksOrEmpty s) k)))))"
proof (intro conjI impI)
  assume "fst (disableNotifications ev d) = Inr (AllDisabled c)"
  from disable_all_success[OF this] obtain s where
    s: "readSettings d = Inr s"
    and d': "snd (disableNotifications ev d)
               = (snd (backupCurrentConfig d))
                   \<lparr>settingsFile := Holds (reserialiseSettings
                      (cleanUp s (deleteAll (hooksOrEmpty s) (configuredEvents s))))\<rparr>"
    by blast
  let ?s' = "reserialiseSettings (cleanUp s (deleteAll (hooksOrEmpty s) (configuredEvents s)))"
  have sf: "settingsFile (snd (disableNotifications ev d)) = Holds ?s'" by (simp add: d')
  note cw = cleanUp_written[of s "deleteAll (hooksOrEmpty s) (configuredEvents s)"]
  have "\<forall>k. map_of (hooksOrEmpty ?s') k
           = (if k \<in> set (configuredEvents s) then None
              else map_option reserialise (map_of (hooksOrEmpty s) k))"
    using cw by (simp add: map_of_deleteAll)
  then show "\<exists>s s'. readSettings d = Inr s
          \<and> settingsFile (snd (disableNotifications ev d)) = Holds s'
          \<and> hooks s' \<noteq> Some []
          \<and> ((hooks s' = None) = (\<forall>k. map_of (hooksOrEmpty s') k = None))
          \<and> (\<forall>k. map_of (hooksOrEmpty s') k
                 = (if k \<in> set (configuredEvents s) then None
                    else map_option reserialise (map_of (hooksOrEmpty s) k)))"
    using s sf cw by (intro exI[of _ s] exI[of _ "?s'"]) simp
next
  assume "fst (disableNotifications ev d) = Inr (EventDisabled x)"
  from disable_one_success[OF this] obtain s where
    s: "readSettings d = Inr s"
    and d': "snd (disableNotifications ev d)
               = (snd (backupCurrentConfig d))
                   \<lparr>settingsFile := Holds (reserialiseSettings
                      (cleanUp s (deleteProp (hooksOrEmpty s) x)))\<rparr>"
    by blast
  let ?s' = "reserialiseSettings (cleanUp s (deleteProp (hooksOrEmpty s) x))"
  have sf: "settingsFile (snd (disableNotifications ev d)) = Holds ?s'" by (simp add: d')
  note cw = cleanUp_written[of s "deleteProp (hooksOrEmpty s) x"]
  have "\<forall>k. map_of (hooksOrEmpty ?s') k
           = (if k = x then None else map_option reserialise (map_of (hooksOrEmpty s) k))"
    using cw by (simp add: map_of_deleteProp)
  then show "\<exists>s s'. readSettings d = Inr s
          \<and> settingsFile (snd (disableNotifications ev d)) = Holds s'
          \<and> hooks s' \<noteq> Some []
          \<and> ((hooks s' = None) = (\<forall>k. map_of (hooksOrEmpty s') k = None))
          \<and> (\<forall>k. map_of (hooksOrEmpty s') k
                 = (if k = x then None
                    else map_option reserialise (map_of (hooksOrEmpty s) k)))"
    using s sf cw by (intro exI[of _ s] exI[of _ "?s'"]) simp
next
  assume "fst (disableNotifications ev d) = Inr NothingConfigured
      \<or> fst (disableNotifications ev d) = Inr (NotConfiguredFor x)"
  then show "settingsFile (snd (disableNotifications ev d)) = settingsFile d"
    by (rule disable_noop)
next
  assume "fst (removeNotification event d) = Inr (Removed x)"
  from remove_success[OF this] obtain s where
    s: "readSettings d = Inr s"
    and d': "snd (removeNotification event d)
               = (unlinkBackup d)
                   \<lparr>settingsFile := Holds (reserialiseSettings
                      (cleanUp s (deleteProp (hooksOrEmpty s) event)))\<rparr>"
    by blast
  let ?s' = "reserialiseSettings (cleanUp s (deleteProp (hooksOrEmpty s) event))"
  have sf: "settingsFile (snd (removeNotification event d)) = Holds ?s'" by (simp add: d')
  note cw = cleanUp_written[of s "deleteProp (hooksOrEmpty s) event"]
  have "\<forall>k. map_of (hooksOrEmpty ?s') k
           = (if k = event then None else map_option reserialise (map_of (hooksOrEmpty s) k))"
    using cw by (simp add: map_of_deleteProp)
  then show "\<exists>s s'. readSettings d = Inr s
          \<and> settingsFile (snd (removeNotification event d)) = Holds s'
          \<and> hooks s' \<noteq> Some []
          \<and> ((hooks s' = None) = (\<forall>k. map_of (hooksOrEmpty s') k = None))
          \<and> (\<forall>k. map_of (hooksOrEmpty s') k
                 = (if k = event then None
                    else map_option reserialise (map_of (hooksOrEmpty s) k)))"
    using s sf cw by (intro exI[of _ s] exI[of _ "?s'"]) simp
next
  assume "fst (removeNotification event d) = Inr (NotConfiguredFor x)"
  then show "settingsFile (snd (removeNotification event d)) = settingsFile d"
    by (simp add: remove_noop)
next
  assume a: "fst (setupNotification e event p n d) = Inr m" and ne: "event \<noteq> ''__proto__''"
  have "setupNotification e event p n d = (Inr m, snd (setupNotification e event p n d))"
    using a by (metis prod.collapse)
  from setup_success[OF this] obtain c s where
    s: "readSettings d = Inr s"
    and d': "snd (setupNotification e event p n d)
               = (snd (backupCurrentConfig d))
                  \<lparr>settingsFile := Holds (reserialiseSettings
                     (s\<lparr>hooks := Some (setProp (hooksOrEmpty s) event
                                         (hookGroups (buildHooks e c n)))\<rparr>))\<rparr>"
    by blast
  let ?g = "setProp (hooksOrEmpty s) event (hookGroups (buildHooks e c n))"
  let ?s' = "reserialiseSettings (s\<lparr>hooks := Some ?g\<rparr>)"
  have sf: "settingsFile (snd (setupNotification e event p n d)) = Holds ?s'"
    by (simp add: d')
  have h: "hooks ?s' = Some (reserialiseObj ?g)" by simp
  have "\<forall>k. map_of (reserialiseObj ?g) k
           = (if k = event then Some (hookGroups (buildHooks e c n))
              else map_option reserialise (map_of (hooksOrEmpty s) k))"
    using ne by (simp add: map_of_reserialiseObj setProp_present map_of_setProp_other)
  then show "\<exists>s s' h' c. readSettings d = Inr s
          \<and> settingsFile (snd (setupNotification e event p n d)) = Holds s'
          \<and> hooks s' = Some h'
          \<and> (\<forall>k. map_of h' k
                 = (if k = event then Some (hookGroups (buildHooks e c n))
                    else map_option reserialise (map_of (hooksOrEmpty s) k)))"
    using s sf h by blast
qed

theorem hooks_key_cleanup_witness:
  "fst (disableNotifications None stopOnlyDisk) = Inr (AllDisabled 1)
   \<and> fst (removeNotification ''Stop'' exampleDisk) = Inr (Removed ''Stop'')
   \<and> (\<exists>s'. settingsFile (snd (disableNotifications None stopOnlyDisk)) = Holds s'
         \<and> hooks s' = None)
   \<and> (\<exists>s'. settingsFile (snd (removeNotification ''Stop'' exampleDisk)) = Holds s'
         \<and> hooks s' \<noteq> None
         \<and> map_of (hooksOrEmpty s') ''Stop'' = None
         \<and> map_of (hooksOrEmpty s') ''Custom'' = Some customEntry)"
proof -
  have a: "fst (disableNotifications None stopOnlyDisk) = Inr (AllDisabled 1)" by code_simp
  have b: "fst (removeNotification ''Stop'' exampleDisk) = Inr (Removed ''Stop'')" by code_simp
  have r1: "readSettings stopOnlyDisk
      = Inr \<lparr>hooks = Some [(''Stop'', stopEntry)], others = []\<rparr>" by code_simp
  have c1: "configuredEvents \<lparr>hooks = Some [(''Stop'', stopEntry)], others = []\<rparr> = [''Stop'']"
    by code_simp
  have r2: "readSettings exampleDisk = Inr exampleSettings" by code_simp
  have h2: "hooksOrEmpty exampleSettings = [(''Stop'', stopEntry), (''Custom'', customEntry)]"
    by code_simp
  have f: "reserialise customEntry = customEntry" by code_simp
  note t1 = hooks_key_cleanup[where ev = None and d = stopOnlyDisk and c = 1 and x = "''Stop''"
      and event = "''Stop''" and e = noSoundEnv and p = None and n = False
      and m = NothingConfigured, THEN conjunct1, rule_format, OF a]
  from t1 obtain s s1 where s1: "readSettings stopOnlyDisk = Inr s"
    "settingsFile (snd (disableNotifications None stopOnlyDisk)) = Holds s1"
    "(hooks s1 = None) = (\<forall>k. map_of (hooksOrEmpty s1) k = None)"
    "\<forall>k. map_of (hooksOrEmpty s1) k
        = (if k \<in> set (configuredEvents s) then None
           else map_option reserialise (map_of (hooksOrEmpty s) k))"
    by (elim exE conjE)
  have s: "s = \<lparr>hooks = Some [(''Stop'', stopEntry)], others = []\<rparr>" using s1(1) r1 by simp
  have "map_of (hooksOrEmpty s1) k = None" for k
    using s1(4) by (simp add: s c1 hooksOrEmpty_def)
  then have "hooks s1 = None" using s1(3) by simp
  then have 1: "\<exists>s'. settingsFile (snd (disableNotifications None stopOnlyDisk)) = Holds s'
         \<and> hooks s' = None"
    using s1(2) by simp
  note t2 = hooks_key_cleanup[where event = "''Stop''" and d = exampleDisk and x = "''Stop''"
      and ev = None and c = 1 and e = noSoundEnv and p = None and n = False
      and m = NothingConfigured, THEN conjunct2, THEN conjunct2, THEN conjunct2,
      THEN conjunct1, rule_format, OF b]
  from t2 obtain s0 s2 where s2: "readSettings exampleDisk = Inr s0"
    "settingsFile (snd (removeNotification ''Stop'' exampleDisk)) = Holds s2"
    "(hooks s2 = None) = (\<forall>k. map_of (hooksOrEmpty s2) k = None)"
    "\<forall>k. map_of (hooksOrEmpty s2) k
        = (if k = ''Stop'' then None
           else map_option reserialise (map_of (hooksOrEmpty s0) k))"
    by (elim exE conjE)
  have s0: "s0 = exampleSettings" using s2(1) r2 by simp
  have m: "map_of (hooksOrEmpty s2) ''Stop'' = None"
    "map_of (hooksOrEmpty s2) ''Custom'' = Some customEntry"
    using s2(4) by (simp_all add: s0 h2 f)
  then have "hooks s2 \<noteq> None" using s2(3) by auto
  then have 2: "\<exists>s'. settingsFile (snd (removeNotification ''Stop'' exampleDisk)) = Holds s'
         \<and> hooks s' \<noteq> None
         \<and> map_of (hooksOrEmpty s') ''Stop'' = None
         \<and> map_of (hooksOrEmpty s') ''Custom'' = Some customEntry"
    using s2(2) m by simp
  show ?thesis using a b 1 2 by simp
qed

text \<open>
  The claim as stated fails for \<^verbatim>\<open>enableNotifications\<close>: with no settings file and a
  backup file holding \<^verbatim>\<open>{}\<close>, it writes a settings document whose \<^verbatim>\<open>hooks\<close> is \<^verbatim>\<open>{}\<close>.
  It also fails in the other direction: \<^verbatim>\<open>disableNotifications()\<close> keeps the \<^verbatim>\<open>hooks\<close>
  key for an entry whose sequence is empty, since the clean-up counts keys.
\<close>

theorem enable_writes_empty_hooks_counterexample:
  "settingsFile (snd (enableNotifications None emptyBackupDisk))
     = Holds \<lparr>hooks = Some [], others = []\<rparr>
   \<and> settingsFile (snd (disableNotifications None emptySequenceDisk))
     = Holds \<lparr>hooks = Some [(''Custom'', JArr [])], others = []\<rparr>"
  by code_simp

section \<open>Setup with an event outside the list\<close>




section \<open>Setup then status\<close>

text \<open>
  Claim C6, amended. Let \<^verbatim>\<open>setupNotification(event, p, notify)\<close> return normally for a
  managed event, with \<open>sp\<close> the resolved sound path (the platform default when \<open>p\<close> is
  null). Then \<^verbatim>\<open>getStatus()\<close> prints the ENABLED line, and the lines it computes for the
  event are the event, a sound line and a desktop-notification line; they are in the
  output whenever \<^verbatim>\<open>getStatus\<close> runs to its end (it stops early on another event whose
  entry makes it throw). The sound line shows \<open>sp\<close> itself when \<open>sp\<close> starts with a
  slash, has no white space and ends in \<^verbatim>\<open>.aiff\<close>, \<^verbatim>\<open>.wav\<close>, \<^verbatim>\<open>.mp3\<close> or \<^verbatim>\<open>.oga\<close> after
  at least one more character; the flag shown equals \<open>notify\<close> when \<open>sp\<close> contains none
  of \<^verbatim>\<open>osascript\<close>, \<^verbatim>\<open>notify-send\<close>, \<^verbatim>\<open>New-BurntToastNotification\<close>.
\<close>

theorem setup_then_status:
  assumes "event \<in> set eventNames"
    and "setupNotification e event p n d = (Inr m, d')"
  shows "\<exists>config sp shown flag k ls.
           getPlatformConfig e = Inr config
         \<and> resolveSoundPath e config p = Inr sp
         \<and> (p = None \<longrightarrow> sp = defaultSound config)
         \<and> fst (getStatus d') = StatusEnabled k # ls \<and> 0 < k
         \<and> (snd (getStatus d') = None \<longrightarrow>
               (\<exists>pre post. ls = pre @ [EventLine event, SoundLine shown, DesktopLine flag] @ post))
         \<and> (\<exists>entry. hooksAt d' event = Some entry
               \<and> describeEvent event entry
                   = ([EventLine event, SoundLine shown, DesktopLine flag], None))
         \<and> ((\<exists>stem x. sp = CHR ''/'' # stem @ x \<and> stem \<noteq> []
                 \<and> (\<forall>ch\<in>set stem. \<not> isSpace ch)
                 \<and> x \<in> set [''.aiff'', ''.wav'', ''.mp3'', ''.oga''])
              \<longrightarrow> shown = sp)
         \<and> (\<not> list_ex (includesStr sp) notifyMarkers \<longrightarrow> flag = n)"
proof -
  from setup_success[OF assms(2)] obtain config sp c s where
    1: "getPlatformConfig e = Inr config" "resolveSoundPath e config p = Inr sp"
       "buildSoundCommand e sp = Inr c" "readSettings d = Inr s"
    and d': "d' = (snd (backupCurrentConfig d))
                  \<lparr>settingsFile := Holds (reserialiseSettings
                     (s\<lparr>hooks := Some (setProp (hooksOrEmpty s) event
                                         (hookGroups (buildHooks e c n)))\<rparr>))\<rparr>"
    by blast
  let ?entry = "hookGroups (buildHooks e c n)"
  let ?g = "setProp (hooksOrEmpty s) event ?entry"
  let ?h = "reserialiseObj ?g"
  let ?s' = "reserialiseSettings (s\<lparr>hooks := Some ?g\<rparr>)"
  let ?shown = "case matchSound c of Some m \<Rightarrow> m | None \<Rightarrow> c"
  let ?flag = "list_ex (includesStr c) notifyMarkers \<or> n"
  have ne: "event \<noteq> ''__proto__''" using assms(1) proto_not_event by auto
  have at: "map_of ?h event = Some ?entry"
    using ne by (simp add: map_of_reserialiseObj setProp_present)
  have hs: "hooks ?s' = Some ?h" by simp
  have he: "hooksOrEmpty ?s' = ?h" by simp
  have rs: "readSettings d' = Inr ?s'" by (simp add: d' readSettings_def)
  have conf: "event \<in> set (configuredEvents ?s')"
    using assms(1) at by (simp add: set_configuredEvents[OF hs] ownTruthy_def truthy_hookGroups)
  then have cne: "configuredEvents ?s' \<noteq> []" by auto
  have gs: "getStatus d' =
      (StatusEnabled (length (configuredEvents ?s')) # fst (reportEvents ?h (configuredEvents ?s')),
       snd (reportEvents ?h (configuredEvents ?s')))"
    using getStatus_cases[OF rs] cne he by simp
  have de: "describeEvent event ?entry = ([EventLine event, SoundLine ?shown, DesktopLine ?flag], None)"
    by (rule describeEvent_setup[OF 1(1,3)])
  have lines: "snd (getStatus d') = None \<longrightarrow>
      (\<exists>pre post. fst (reportEvents ?h (configuredEvents ?s'))
          = pre @ [EventLine event, SoundLine ?shown, DesktopLine ?flag] @ post)"
    using reportEvents_contains[OF _ conf at] de by (simp add: gs)
  have shown: "(\<exists>stem x. sp = CHR ''/'' # stem @ x \<and> stem \<noteq> []
                 \<and> (\<forall>ch\<in>set stem. \<not> isSpace ch)
                 \<and> x \<in> set [''.aiff'', ''.wav'', ''.mp3'', ''.oga'']) \<longrightarrow> ?shown = sp"
    using matchSound_command[OF 1(1,3)] by auto
  have flag: "\<not> list_ex (includesStr sp) notifyMarkers \<longrightarrow> ?flag = n"
    using notify_marker_in_path[OF 1(1,3)] by (auto simp: list_ex_iff)
  have hat: "hooksAt d' event = Some ?entry"
    using at by (simp add: readSettings_hooksAt[OF rs])
  have k: "0 < length (configuredEvents ?s')" using cne by simp
  have dflt: "p = None \<longrightarrow> sp = defaultSound config" using resolve_default[OF 1(2)] by simp
  show ?thesis
    using 1(1,2) dflt gs k lines hat de shown flag
    by (intro exI[of _ config] exI[of _ sp] exI[of _ ?shown] exI[of _ ?flag]
        exI[of _ "length (configuredEvents ?s')"]
        exI[of _ "fst (reportEvents ?h (configuredEvents ?s'))"]) simp
qed

theorem setup_then_status_witness:
  "''Stop'' \<in> set eventNames
   \<and> fst (setupNotification (exampleEnv ''darwin'') ''Stop'' None True freshDisk)
       = Inr (Configured ''Stop'' ''/System/Library/Sounds/Glass.aiff'' True)
   \<and> (\<exists>k ls. fst (getStatus (snd (setupNotification (exampleEnv ''darwin'') ''Stop'' None True
                  freshDisk))) = StatusEnabled k # ls \<and> 0 < k)"
proof -
  have a: "''Stop'' \<in> set eventNames" by (simp add: eventNames_eq)
  have c: "fst (setupNotification (exampleEnv ''darwin'') ''Stop'' None True freshDisk)
             = Inr (Configured ''Stop'' ''/System/Library/Sounds/Glass.aiff'' True)"
    by code_simp
  then have d: "setupNotification (exampleEnv ''darwin'') ''Stop'' None True freshDisk
      = (Inr (Configured ''Stop'' ''/System/Library/Sounds/Glass.aiff'' True),
         snd (setupNotification (exampleEnv ''darwin'') ''Stop'' None True freshDisk))"
    by (metis prod.collapse)
  show ?thesis
    using setup_then_status[OF a d] a c by blast
qed

text \<open>
  The claim as stated fails in both parts. On Windows the default sound has no slash and
  has spaces, so the sound line shows the whole command, not the path. And a sound file
  named \<^verbatim>\<open>/tmp/osascript.aiff\<close>, set up without desktop notification, is reported with
  desktop notifications enabled.
\<close>

theorem status_sound_and_flag_counterexample:
  "fst (setupNotification (exampleEnv ''win32'') ''Stop'' None True freshDisk)
     = Inr (Configured ''Stop'' (defaultSound PLATFORM_win32) True)
   \<and> getStatus (snd (setupNotification (exampleEnv ''win32'') ''Stop'' None True freshDisk))
     = ([StatusEnabled 1, EventLine ''Stop'',
         SoundLine (''powershell -c (New-Object Media.SoundPlayer '' @ [CHR 0x27]
                    @ defaultSound PLATFORM_win32 @ [CHR 0x27] @ '').PlaySync()''),
         DesktopLine True], None)
   \<and> ''powershell -c (New-Object Media.SoundPlayer '' @ [CHR 0x27]
        @ defaultSound PLATFORM_win32 @ [CHR 0x27] @ '').PlaySync()''
       \<noteq> defaultSound PLATFORM_win32
   \<and> fst (setupNotification (exampleEnv ''darwin'') ''Stop'' (Some ''/tmp/osascript.aiff'')
          False freshDisk)
     = Inr (Configured ''Stop'' ''/tmp/osascript.aiff'' False)
   \<and> getStatus (snd (setupNotification (exampleEnv ''darwin'') ''Stop''
          (Some ''/tmp/osascript.aiff'') False freshDisk))
     = ([StatusEnabled 1, EventLine ''Stop'', SoundLine ''/tmp/osascript.aiff'',
         DesktopLine True], None)"
  by code_simp

end
